theory Spec2Isabelle
  imports Complex_Main "HOL-Library.Multiset"
begin

section \<open>Strings as the pipeline uses them\<close>

text \<open>
  A title is a byte string (UTF-8). Python's \<^verbatim>\<open>str.lower\<close> is modelled on the ASCII
  letters; every keyword of the classifier is ASCII, no keyword contains \<open>k\<close> and none
  ends in \<open>i\<close>, which are the only ASCII letters that the lower-casing of a non-ASCII
  code point can produce (U+212A and U+0130), so the matches below are those of Python.
\<close>

definition lower_char :: "char \<Rightarrow> char" where
  "lower_char c =
     (let n = (of_char c :: nat)
      in if 65 \<le> n \<and> n \<le> 90 then char_of (n + 32) else c)"

definition lower :: "string \<Rightarrow> string" where
  "lower s = map lower_char s"

fun startswith :: "string \<Rightarrow> string \<Rightarrow> bool" where
  "startswith s [] = True"
| "startswith [] (p # ps) = False"
| "startswith (c # cs) (p # ps) = (c = p \<and> startswith cs ps)"

text \<open>\<open>str_in sub s\<close> is Python's \<^verbatim>\<open>sub in s\<close> on strings.\<close>

fun str_in :: "string \<Rightarrow> string \<Rightarrow> bool" where
  "str_in sub [] = (sub = [])"
| "str_in sub (c # cs) = (startswith (c # cs) sub \<or> str_in sub cs)"

text \<open>\<open>join sep xs\<close> is Python's \<^verbatim>\<open>sep.join(xs)\<close>.\<close>

fun join :: "string \<Rightarrow> string list \<Rightarrow> string" where
  "join sep [] = []"
| "join sep [x] = x"
| "join sep (x # y # ys) = x @ sep @ join sep (y # ys)"

datatype py_error =
    IndexError
  | ValueError
  | OverflowError
  | ConstraintException
  | ConversionException
  | ServerError
  | JSONDecodeError
  | OtherError

section \<open>Classification: \<^verbatim>\<open>get_post_labels\<close> of assets/posts.py\<close>

definition robots :: "(string \<times> string list) list" where
  "robots =
     [(''optimus'', [''robot'', ''bot'', ''humanoid'']),
      (''figure'', [''01'', ''02'', ''03'', ''humanoid'', ''robot'', ''bot'']),
      (''neo'', [''1x'', ''humanoid'', ''robot'', ''bot''])]"

definition exclusion_patterns :: "string list" where
  "exclusion_patterns = [''to figure'', ''figure out'', ''figure it out'']"

definition neo_patterns :: "string list" where
  "neo_patterns = [''1x bot'', ''1x robot'', ''1x humanoid'']"

text \<open>\<open>any_in ks title\<close> is \<^verbatim>\<open>any(k in title for k in ks)\<close>.\<close>

definition any_in :: "string list \<Rightarrow> string \<Rightarrow> bool" where
  "any_in ks title = list_ex (\<lambda>k. str_in k title) ks"

text \<open>One pass of the loop over \<^verbatim>\<open>robots.items()\<close>: the if / elif / else on the robot's name.\<close>

definition label_step :: "string \<Rightarrow> string list \<Rightarrow> string \<times> string list \<Rightarrow> string list" where
  "label_step title labels rk =
     (case rk of (robot, keywords) \<Rightarrow>
        if robot = ''optimus'' then
          (if str_in ''optimus'' title \<or> (str_in ''tesla'' title \<and> any_in keywords title)
           then labels @ [robot] else labels)
        else if robot = ''figure'' then
          (if str_in ''figure'' title \<and> any_in keywords title
           then (if \<not> any_in exclusion_patterns title then labels @ [robot] else labels)
           else labels)
        else
          (if (str_in ''neo'' title \<and> any_in keywords title) \<or> any_in neo_patterns title
           then labels @ [robot] else labels))"

text \<open>
  The last line of the source reads \<^verbatim>\<open>labels[0]\<close>, which raises IndexError on an
  empty list; the model keeps that branch.
\<close>

definition get_post_labels :: "string \<Rightarrow> py_error + string" where
  "get_post_labels title0 =
     (let title = lower title0;
          labels = foldl (label_step title) [] robots;
          labels = (if length labels = 0
                    then (if str_in ''humanoid'' title then labels @ [''other'']
                          else labels @ [''none''])
                    else labels)
      in if length labels > 1 then Inr (join ''-'' labels)
         else (case labels of [] \<Rightarrow> Inl IndexError | l # _ \<Rightarrow> Inr l))"

text \<open>
  The classification rules in the words of the specification: one rule per brand, each a
  predicate of the lower-cased title alone, listed in the order optimus, figure, neo.
\<close>

definition optimus_rule :: "string \<Rightarrow> bool" where
  "optimus_rule t =
     (str_in ''optimus'' t \<or>
      (str_in ''tesla'' t \<and> (str_in ''robot'' t \<or> str_in ''bot'' t \<or> str_in ''humanoid'' t)))"

definition figure_rule :: "string \<Rightarrow> bool" where
  "figure_rule t =
     (str_in ''figure'' t \<and>
      (str_in ''01'' t \<or> str_in ''02'' t \<or> str_in ''03'' t \<or>
       str_in ''humanoid'' t \<or> str_in ''robot'' t \<or> str_in ''bot'' t) \<and>
      \<not> (str_in ''to figure'' t \<or> str_in ''figure out'' t \<or> str_in ''figure it out'' t))"

definition neo_rule :: "string \<Rightarrow> bool" where
  "neo_rule t =
     ((str_in ''neo'' t \<and>
       (str_in ''1x'' t \<or> str_in ''humanoid'' t \<or> str_in ''robot'' t \<or> str_in ''bot'' t)) \<or>
      str_in ''1x bot'' t \<or> str_in ''1x robot'' t \<or> str_in ''1x humanoid'' t)"

definition brand_rules :: "(string \<times> (string \<Rightarrow> bool)) list" where
  "brand_rules = [(''optimus'', optimus_rule), (''figure'', figure_rule), (''neo'', neo_rule)]"

definition matched_brands :: "string \<Rightarrow> string list" where
  "matched_brands t = map fst (filter (\<lambda>(b, rule). rule t) brand_rules)"

section \<open>Partition calendar\<close>

text \<open>
  A naive local datetime, as Python's \<^verbatim>\<open>datetime\<close> holds it: the proleptic Gregorian
  ordinal of its date (0001-01-01 is day 1) and the seconds since midnight.
\<close>

record datetime =
  ordinal :: int
  second_of_day :: int

definition is_leap :: "int \<Rightarrow> bool" where
  "is_leap y = (y mod 4 = 0 \<and> (y mod 100 \<noteq> 0 \<or> y mod 400 = 0))"

definition days_in_month :: "int \<Rightarrow> int \<Rightarrow> int" where
  "days_in_month y m =
     (if m = 2 then (if is_leap y then 29 else 28)
      else if m = 4 \<or> m = 6 \<or> m = 9 \<or> m = 11 then 30 else 31)"

definition days_before_year :: "int \<Rightarrow> int" where
  "days_before_year y = (y - 1) * 365 + (y - 1) div 4 - (y - 1) div 100 + (y - 1) div 400"

definition days_before_month :: "int \<Rightarrow> int \<Rightarrow> int" where
  "days_before_month y m = sum_list (map (days_in_month y) [1 ..< nat m])"

definition ymd2ord :: "int \<Rightarrow> int \<Rightarrow> int \<Rightarrow> int" where
  "ymd2ord y m d = days_before_year y + days_before_month y m + d"

definition digit :: "char \<Rightarrow> int option" where
  "digit c =
     (let n = (of_char c :: nat)
      in if 48 \<le> n \<and> n \<le> 57 then Some (int n - 48) else None)"

fun number :: "int \<Rightarrow> string \<Rightarrow> int option" where
  "number acc [] = Some acc"
| "number acc (c # cs) =
     (case digit c of None \<Rightarrow> None | Some v \<Rightarrow> number (acc * 10 + v) cs)"

text \<open>
  \<^verbatim>\<open>datetime.strptime(key, "%Y-%m-%d")\<close> on the keys of the form that
  \<^verbatim>\<open>daily_partition\<close> produces: four digits, a dash, two digits, a dash, two digits.
  A key of that form that names no calendar date raises ValueError. Every other string is
  mapped to ValueError as well; Python accepts a few of them (a one-digit month or day),
  which the partition definition never produces.
\<close>

definition strptime :: "string \<Rightarrow> py_error + datetime" where
  "strptime s =
     (if length s = 10 \<and> s ! 4 = CHR ''-'' \<and> s ! 7 = CHR ''-'' then
        (case (number 0 (take 4 s), number 0 (take 2 (drop 5 s)), number 0 (drop 8 s)) of
           (Some y, Some m, Some d) \<Rightarrow>
             if 1 \<le> y \<and> 1 \<le> m \<and> m \<le> 12 \<and> 1 \<le> d \<and> d \<le> days_in_month y m
             then Inr \<lparr>ordinal = ymd2ord y m d, second_of_day = 0\<rparr>
             else Inl ValueError
         | _ \<Rightarrow> Inl ValueError)
      else Inl ValueError)"

text \<open>
  \<^verbatim>\<open>dt + timedelta(days=n)\<close>: the result must be a date between 0001-01-01 and
  9999-12-31 (ordinal 3652059), else Python raises OverflowError.
\<close>

definition add_days :: "datetime \<Rightarrow> int \<Rightarrow> py_error + datetime" where
  "add_days dt n =
     (let ord' = ordinal dt + n
      in if 1 \<le> ord' \<and> ord' \<le> 3652059 then Inr (dt\<lparr>ordinal := ord'\<rparr>)
         else Inl OverflowError)"

text \<open>\<^verbatim>\<open>dt.weekday()\<close>: Monday is 0.\<close>

definition weekday :: "datetime \<Rightarrow> int" where
  "weekday dt = (ordinal dt + 6) mod 7"

text \<open>
  \<^verbatim>\<open>int(time.mktime(dt.timetuple()))\<close>: the epoch second of a local wall-clock time.
  The local time zone is not part of the repository; it is the parameter \<open>utcoffset\<close>,
  the zone's offset from UTC in seconds at a given wall-clock time. 1970-01-01 has
  ordinal 719163.
\<close>

definition mktime :: "(datetime \<Rightarrow> int) \<Rightarrow> datetime \<Rightarrow> int" where
  "mktime utcoffset dt = (ordinal dt - 719163) * 86400 + second_of_day dt - utcoffset dt"

definition utc :: "datetime \<Rightarrow> int" where
  "utc dt = 0"

text \<open>Order of wall-clock times (the order of their ISO strings).\<close>

definition dt_le :: "datetime \<Rightarrow> datetime \<Rightarrow> bool" where
  "dt_le a b = (ordinal a < ordinal b \<or> (ordinal a = ordinal b \<and> second_of_day a \<le> second_of_day b))"

definition dt_less :: "datetime \<Rightarrow> datetime \<Rightarrow> bool" where
  "dt_less a b = (ordinal a < ordinal b \<or> (ordinal a = ordinal b \<and> second_of_day a < second_of_day b))"

record window =
  start_date :: datetime
  end_date :: datetime
  start_timestamp :: int
  end_timestamp :: int

text \<open>
  The daily window, computed the same way at the head of \<^verbatim>\<open>fetch_daily_reddit_posts\<close>,
  \<^verbatim>\<open>classify_daily_reddit_posts\<close> and \<^verbatim>\<open>summarize_robot_posts\<close>.
\<close>

definition daily_window :: "(datetime \<Rightarrow> int) \<Rightarrow> string \<Rightarrow> py_error + window" where
  "daily_window utcoffset partition_date_str =
     (case strptime partition_date_str of
        Inl e \<Rightarrow> Inl e
      | Inr sd \<Rightarrow>
          (case add_days sd 1 of
             Inl e \<Rightarrow> Inl e
           | Inr ed \<Rightarrow>
               Inr \<lparr>start_date = sd, end_date = ed,
                    start_timestamp = mktime utcoffset sd,
                    end_timestamp = mktime utcoffset ed\<rparr>))"

text \<open>The week window of \<^verbatim>\<open>aggregate_posts_by_category_and_week\<close>.\<close>

definition week_window :: "(datetime \<Rightarrow> int) \<Rightarrow> string \<Rightarrow> py_error + window" where
  "week_window utcoffset partition_date_str =
     (case strptime partition_date_str of
        Inl e \<Rightarrow> Inl e
      | Inr partition_date \<Rightarrow>
          (case add_days partition_date (- weekday partition_date) of
             Inl e \<Rightarrow> Inl e
           | Inr sd \<Rightarrow>
               (case add_days partition_date 1 of
                  Inl e \<Rightarrow> Inl e
                | Inr ed \<Rightarrow>
                    Inr \<lparr>start_date = sd, end_date = ed,
                         start_timestamp = mktime utcoffset sd,
                         end_timestamp = mktime utcoffset ed\<rparr>)))"

definition width_days :: "window \<Rightarrow> int" where
  "width_days w = ordinal (end_date w) - ordinal (start_date w)"

definition width_seconds :: "window \<Rightarrow> int" where
  "width_seconds w = end_timestamp w - start_timestamp w"

section \<open>The store and the ingestion stage (assets/posts.py)\<close>

text \<open>A submission as PRAW returns it; \<open>s_created_utc\<close> is in whole epoch seconds.\<close>

record submission =
  s_id :: string
  s_title :: string
  s_permalink :: string
  s_url :: string
  s_created_utc :: int
  s_score :: int
  s_num_comments :: int

text \<open>An entry of \<^verbatim>\<open>posts_in_date_range\<close> (a row of \<^verbatim>\<open>temp_posts_df\<close>).\<close>

record fetched_post =
  f_post_id :: string
  f_subreddit :: string
  f_title :: string
  f_permalink :: string
  f_url :: string
  f_created_utc :: int
  f_created_local :: datetime
  f_score :: int
  f_n_comments :: int

text \<open>
  A row of the table \<^verbatim>\<open>posts\<close> (and of \<^verbatim>\<open>robot_posts\<close>, created with the same
  columns). \<open>humanoid\<close> is NULL (\<open>None\<close>) until the post is classified. The column
  \<open>created_local\<close> holds the text \<^verbatim>\<open>YYYY-MM-DD HH:MM:SS\<close>; the model keeps the
  wall-clock time it denotes, and \<open>dt_le\<close>, \<open>dt_less\<close> for the order of such texts.
\<close>

record posts_row =
  post_id :: string
  humanoid :: "string option"
  subreddit :: string
  title :: string
  created_utc :: int
  created_local :: datetime
  score :: int
  n_comments :: int
  partition_date :: string

text \<open>
  A row of \<^verbatim>\<open>weekly_post_metrics\<close>. A DOUBLE is kept as the rational number it
  denotes; \<open>w_partition_date\<close> holds the text \<^verbatim>\<open>YYYY-MM-DD\<close> of a midnight, kept
  as that midnight.
\<close>

record weekly_row =
  w_id :: int
  w_humanoid :: "string option"
  w_n_posts :: int
  w_avg_score :: rat
  w_avg_comments :: rat
  w_partition_date :: datetime

text \<open>
  The database, after the \<^verbatim>\<open>CREATE ... IF NOT EXISTS\<close> statements: three tables and the
  next value of the sequence \<^verbatim>\<open>seq_weekly_id\<close> (1 when fresh). Every \<^verbatim>\<open>conn.execute\<close>
  commits on its own, so a statement that raises leaves the earlier ones applied. The
  store raises no \<^verbatim>\<open>duckdb.IOException\<close> in this model: each retry loop around the
  statements runs its body once.
\<close>

record db =
  posts :: "posts_row list"
  robot_posts :: "posts_row list"
  weekly_post_metrics :: "weekly_row list"
  seq_weekly_id :: int

text \<open>
  One attempt at iterating \<^verbatim>\<open>subreddit.new(limit=None)\<close>: the submissions it yields and
  the exception that ends it, if any.
\<close>

record listing =
  yielded :: "submission list"
  raised :: "py_error option"

text \<open>
  What the repository takes from outside: the local time zone (\<open>utcoffset\<close> for
  \<^verbatim>\<open>time.mktime\<close>, \<open>fromtimestamp\<close> for \<^verbatim>\<open>datetime.fromtimestamp\<close>), the constant
  \<^verbatim>\<open>constants.SUBREDDITS\<close>, the forum's answer to the listing of a subreddit at a
  given attempt, and DuckDB's \<^verbatim>\<open>ROUND(AVG(x), 2)\<close> over a group of an INTEGER column.
  DuckDB sums such a group exactly, divides the sum by the count in DOUBLE arithmetic and
  rounds the DOUBLE; the model does not compute with doubles, it takes the result as the
  function \<open>round_avg\<close> of the sum and the count, and keeps a DOUBLE as the rational
  number it denotes.
\<close>

record env =
  utcoffset :: "datetime \<Rightarrow> int"
  fromtimestamp :: "int \<Rightarrow> datetime"
  SUBREDDITS :: "string list"
  subreddit_new :: "string \<Rightarrow> nat \<Rightarrow> listing"
  round_avg :: "int \<Rightarrow> int \<Rightarrow> rat"

definition to_dict :: "env \<Rightarrow> string \<Rightarrow> submission \<Rightarrow> fetched_post" where
  "to_dict E subreddit_name p =
     \<lparr>f_post_id = s_id p, f_subreddit = subreddit_name, f_title = s_title p,
      f_permalink = s_permalink p, f_url = s_url p, f_created_utc = s_created_utc p,
      f_created_local = fromtimestamp E (s_created_utc p),
      f_score = s_score p, f_n_comments = s_num_comments p\<rparr>"

text \<open>The filter of the fetch loop: both bounds inclusive.\<close>

definition in_date_range :: "window \<Rightarrow> submission \<Rightarrow> bool" where
  "in_date_range w p =
     (start_timestamp w \<le> s_created_utc p \<and> s_created_utc p \<le> end_timestamp w)"

definition retries :: nat where
  "retries = 5"

text \<open>
  The retry loop \<^verbatim>\<open>for attempt in range(retries)\<close> for one subreddit. The posts appended
  before an attempt raises stay in the list.
\<close>

fun fetch_subreddit ::
  "env \<Rightarrow> window \<Rightarrow> string \<Rightarrow> nat list \<Rightarrow> fetched_post list \<Rightarrow> py_error + fetched_post list"
where
  "fetch_subreddit E w subreddit_name [] acc = Inr acc"
| "fetch_subreddit E w subreddit_name (attempt # rest) acc =
     (let l = subreddit_new E subreddit_name attempt;
          acc' = acc @ map (to_dict E subreddit_name) (filter (in_date_range w) (yielded l))
      in case raised l of
           None \<Rightarrow> Inr acc'
         | Some e \<Rightarrow>
             if e = ServerError then
               (if attempt < retries - 1 then fetch_subreddit E w subreddit_name rest acc'
                else Inl e)
             else Inl e)"

fun fetch_subreddits ::
  "env \<Rightarrow> window \<Rightarrow> string list \<Rightarrow> fetched_post list \<Rightarrow> py_error + fetched_post list"
where
  "fetch_subreddits E w [] acc = Inr acc"
| "fetch_subreddits E w (subreddit_name # rest) acc =
     (case fetch_subreddit E w subreddit_name [0 ..< retries] acc of
        Inl e \<Rightarrow> Inl e
      | Inr acc' \<Rightarrow> fetch_subreddits E w rest acc')"

text \<open>
  The columns \<open>created_utc\<close> of \<^verbatim>\<open>posts\<close> and \<open>id\<close> of \<^verbatim>\<open>weekly_post_metrics\<close>
  are INTEGER: 32 bits, signed.
\<close>

definition int32 :: "int \<Rightarrow> bool" where
  "int32 i = (- 2147483648 \<le> i \<and> i \<le> 2147483647)"

text \<open>
  The queries on \<open>created_utc\<close> compare the column with the window's bounds written as
  quoted literals, which DuckDB converts to INTEGER: a statement with a bound outside the
  32-bit range raises a conversion error. Each stage checks \<open>bounds_convert\<close> where it
  runs its first such statement.
\<close>

definition bounds_convert :: "window \<Rightarrow> bool" where
  "bounds_convert w = (int32 (start_timestamp w) \<and> int32 (end_timestamp w))"

text \<open>
  The predicate of the delete and select queries on \<open>created_utc\<close>, for bounds that
  convert: half-open.
\<close>

definition in_window :: "window \<Rightarrow> posts_row \<Rightarrow> bool" where
  "in_window w r = (created_utc r \<ge> start_timestamp w \<and> created_utc r < end_timestamp w)"

definition delete_query :: "window \<Rightarrow> posts_row list \<Rightarrow> posts_row list" where
  "delete_query w table = filter (\<lambda>r. \<not> in_window w r) table"

definition insert_row :: "string \<Rightarrow> fetched_post \<Rightarrow> posts_row" where
  "insert_row partition_date_str d =
     \<lparr>post_id = f_post_id d, humanoid = None, subreddit = f_subreddit d, title = f_title d,
      created_utc = f_created_utc d, created_local = f_created_local d, score = f_score d,
      n_comments = f_n_comments d, partition_date = partition_date_str\<rparr>"

text \<open>
  The insert: \<open>post_id\<close> is the primary key of \<^verbatim>\<open>posts\<close>, so an insert that would
  store one \<open>post_id\<close> twice raises a constraint error and stores nothing.
\<close>

definition insert_query :: "string \<Rightarrow> fetched_post list \<Rightarrow> posts_row list \<Rightarrow> py_error + posts_row list" where
  "insert_query partition_date_str temp_posts_df table =
     (let new = map (insert_row partition_date_str) temp_posts_df
      in if distinct (map post_id new) \<and>
            list_all (\<lambda>r. post_id r \<notin> set (map post_id table)) new
         then Inr (table @ new)
         else Inl ConstraintException)"

text \<open>
  \<^verbatim>\<open>fetch_daily_reddit_posts\<close>. The result is the number of fetched posts or the
  exception raised, with the database as the run leaves it. With no post in the range,
  \<^verbatim>\<open>pd.DataFrame([])\<close> has no columns and registering it raises before any statement
  runs. The delete query is the first statement that converts the window's bounds.
\<close>

definition fetch_daily_reddit_posts :: "env \<Rightarrow> string \<Rightarrow> db \<Rightarrow> (py_error + nat) \<times> db" where
  "fetch_daily_reddit_posts E partition_date_str D =
     (case daily_window (utcoffset E) partition_date_str of
        Inl e \<Rightarrow> (Inl e, D)
      | Inr w \<Rightarrow>
          (case fetch_subreddits E w (SUBREDDITS E) [] of
             Inl e \<Rightarrow> (Inl e, D)
           | Inr posts_in_date_range \<Rightarrow>
               if posts_in_date_range = [] then (Inl OtherError, D)
               else if \<not> bounds_convert w then (Inl ConversionException, D)
               else
                 (let deleted = delete_query w (posts D)
                  in case insert_query partition_date_str posts_in_date_range deleted of
                       Inl e \<Rightarrow> (Inl e, D\<lparr>posts := deleted\<rparr>)
                     | Inr table \<Rightarrow> (Inr (length posts_in_date_range), D\<lparr>posts := table\<rparr>))))"

text \<open>The number of rows of \<^verbatim>\<open>posts\<close> in the window of a partition.\<close>

definition window_row_count :: "window \<Rightarrow> db \<Rightarrow> nat" where
  "window_row_count w D = length (filter (in_window w) (posts D))"

section \<open>Classification and selection of robot posts (assets/posts.py)\<close>

text \<open>
  \<^verbatim>\<open>posts_partition_df["humanoid"] = posts_partition_df["title"].apply(get_post_labels)\<close>:
  the first title on which the function raises ends the run.
\<close>

fun apply_labels :: "posts_row list \<Rightarrow> py_error + posts_row list" where
  "apply_labels [] = Inr []"
| "apply_labels (r # rs) =
     (case get_post_labels (title r) of
        Inl e \<Rightarrow> Inl e
      | Inr l \<Rightarrow>
          (case apply_labels rs of
             Inl e \<Rightarrow> Inl e
           | Inr rs' \<Rightarrow> Inr (r\<lparr>humanoid := Some l\<rparr> # rs')))"

text \<open>
  The update query: a row of \<^verbatim>\<open>posts\<close> whose \<open>post_id\<close> occurs in \<^verbatim>\<open>temp_updates\<close>
  takes the label stored there.
\<close>

definition update_query :: "posts_row list \<Rightarrow> posts_row list \<Rightarrow> posts_row list" where
  "update_query temp_updates table =
     map (\<lambda>r. case map_of (map (\<lambda>u. (post_id u, humanoid u)) temp_updates) (post_id r) of
                None \<Rightarrow> r
              | Some h \<Rightarrow> r\<lparr>humanoid := h\<rparr>) table"

definition classify_daily_reddit_posts :: "env \<Rightarrow> string \<Rightarrow> db \<Rightarrow> (py_error + nat) \<times> db" where
  "classify_daily_reddit_posts E partition_date_str D =
     (case daily_window (utcoffset E) partition_date_str of
        Inl e \<Rightarrow> (Inl e, D)
      | Inr w \<Rightarrow>
          if \<not> bounds_convert w then (Inl ConversionException, D)
          else
            (case apply_labels (filter (in_window w) (posts D)) of
               Inl e \<Rightarrow> (Inl e, D)
             | Inr posts_partition_df \<Rightarrow>
                 (Inr (length posts_partition_df),
                  D\<lparr>posts := update_query posts_partition_df (posts D)\<rparr>)))"

text \<open>\<^verbatim>\<open>humanoid IN ('optimus', 'figure', 'neo')\<close>: not true of NULL.\<close>

definition is_robot_label :: "string option \<Rightarrow> bool" where
  "is_robot_label h =
     (case h of None \<Rightarrow> False | Some l \<Rightarrow> l = ''optimus'' \<or> l = ''figure'' \<or> l = ''neo'')"

definition in_local_window :: "datetime \<Rightarrow> datetime \<Rightarrow> posts_row \<Rightarrow> bool" where
  "in_local_window sd ed r = (dt_le sd (created_local r) \<and> dt_less (created_local r) ed)"

text \<open>
  \<^verbatim>\<open>select_robot_posts\<close>: delete the partition's rows of \<^verbatim>\<open>robot_posts\<close>, then insert
  the partition's rows of \<^verbatim>\<open>posts\<close> whose label is one of the three brands. The table
  \<^verbatim>\<open>robot_posts\<close> is created from a query and has no key. The result is the number of
  rows inserted.
\<close>

definition select_robot_posts :: "string \<Rightarrow> db \<Rightarrow> (py_error + nat) \<times> db" where
  "select_robot_posts partition_str D =
     (case strptime partition_str of
        Inl e \<Rightarrow> (Inl e, D)
      | Inr sd \<Rightarrow>
          (case add_days sd 1 of
             Inl e \<Rightarrow> (Inl e, D)
           | Inr ed \<Rightarrow>
               (let kept = filter (\<lambda>r. \<not> in_local_window sd ed r) (robot_posts D);
                    inserted = filter (\<lambda>r. is_robot_label (humanoid r) \<and> in_local_window sd ed r)
                                 (posts D)
                in (Inr (length inserted), D\<lparr>robot_posts := kept @ inserted\<rparr>))))"

text \<open>
  The rows that the select query at the head of \<^verbatim>\<open>summarize_robot_posts\<close>
  (assets/summaries.py) returns, for bounds that convert.
\<close>

definition select_partition_robot_posts :: "window \<Rightarrow> db \<Rightarrow> posts_row list" where
  "select_partition_robot_posts w D =
     filter (\<lambda>r. in_window w r \<and> is_robot_label (humanoid r)) (robot_posts D)"

text \<open>The select query itself: it raises when a bound of the window does not convert.\<close>

definition robot_posts_query :: "window \<Rightarrow> db \<Rightarrow> py_error + posts_row list" where
  "robot_posts_query w D =
     (if bounds_convert w then Inr (select_partition_robot_posts w D)
      else Inl ConversionException)"

section \<open>Weekly aggregation (assets/metrics.py)\<close>

text \<open>
  \<^verbatim>\<open>GROUP BY humanoid\<close> with the aggregates of the insert query: one tuple per label
  (NULL is a group of its own). The query has no ORDER BY and DuckDB returns the groups in
  the order of its hash table, which the model takes from outside: \<open>rank\<close> is the place
  that this execution of the query gives to each label.
\<close>

definition grouped ::
  "env \<Rightarrow> (string option \<Rightarrow> nat) \<Rightarrow> posts_row list \<Rightarrow> (string option \<times> int \<times> rat \<times> rat) list"
where
  "grouped E rank rows =
     map (\<lambda>h. let g = filter (\<lambda>r. humanoid r = h) rows
               in (h, int (length g),
                   round_avg E (sum_list (map score g)) (int (length g)),
                   round_avg E (sum_list (map n_comments g)) (int (length g))))
       (sort_key rank (remdups (map humanoid rows)))"

text \<open>The inserted rows: each takes the next value of the sequence as its id.\<close>

fun number_rows ::
  "int \<Rightarrow> datetime \<Rightarrow> (string option \<times> int \<times> rat \<times> rat) list \<Rightarrow> weekly_row list"
where
  "number_rows next_id start [] = []"
| "number_rows next_id start ((h, n, s, c) # gs) =
     \<lparr>w_id = next_id, w_humanoid = h, w_n_posts = n, w_avg_score = s, w_avg_comments = c,
      w_partition_date = start\<rparr> # number_rows (next_id + 1) start gs"

definition in_week :: "window \<Rightarrow> weekly_row \<Rightarrow> bool" where
  "in_week w r =
     (dt_le (start_date w) (w_partition_date r) \<and> dt_less (w_partition_date r) (end_date w))"

text \<open>The columns that the final select query reads: all but the id and the date.\<close>

definition metric_columns :: "weekly_row \<Rightarrow> string option \<times> int \<times> rat \<times> rat" where
  "metric_columns r = (w_humanoid r, w_n_posts r, w_avg_score r, w_avg_comments r)"

text \<open>
  \<^verbatim>\<open>aggregate_posts_by_category_and_week\<close>: delete the week's rows, insert the fresh
  aggregates, select them back. The delete compares dates only; the insert is the first
  statement that converts the window's bounds. \<open>w_id\<close> is the primary key of the table
  and an INTEGER, which a value of the sequence outside the 32-bit range does not fit. The
  result is \<^verbatim>\<open>aggregated_data\<close>. The sequence keeps the values it has handed out when
  the insert raises.
\<close>

definition aggregate_posts_by_category_and_week ::
  "env \<Rightarrow> (string option \<Rightarrow> nat) \<Rightarrow> string \<Rightarrow> db \<Rightarrow>
   (py_error + (string option \<times> int \<times> rat \<times> rat) list) \<times> db"
where
  "aggregate_posts_by_category_and_week E rank partition_date_str D =
     (case week_window (utcoffset E) partition_date_str of
        Inl e \<Rightarrow> (Inl e, D)
      | Inr w \<Rightarrow>
          (let deleted = filter (\<lambda>r. \<not> in_week w r) (weekly_post_metrics D)
           in if \<not> bounds_convert w
              then (Inl ConversionException, D\<lparr>weekly_post_metrics := deleted\<rparr>)
              else
                (let new = number_rows (seq_weekly_id D) (start_date w)
                             (grouped E rank (filter (in_window w) (posts D)));
                     D' = D\<lparr>weekly_post_metrics := deleted,
                            seq_weekly_id := seq_weekly_id D + int (length new)\<rparr>
                 in if \<not> list_all (\<lambda>r. int32 (w_id r)) new
                    then (Inl ConversionException, D')
                    else if list_all (\<lambda>r. w_id r \<notin> set (map w_id deleted)) new
                    then (Inr (map metric_columns
                                 (filter (\<lambda>r. w_partition_date r = start_date w)
                                    (deleted @ new))),
                          D'\<lparr>weekly_post_metrics := deleted @ new\<rparr>)
                    else (Inl ConstraintException, D'))))"

text \<open>The rows of \<^verbatim>\<open>weekly_post_metrics\<close> that belong to the week of a window.\<close>

definition week_rows :: "window \<Rightarrow> db \<Rightarrow> weekly_row list" where
  "week_rows w D = filter (\<lambda>r. w_partition_date r = start_date w) (weekly_post_metrics D)"

text \<open>A row of \<^verbatim>\<open>weekly_post_metrics\<close> without its sequence-generated id.\<close>

definition without_id :: "weekly_row \<Rightarrow> string option \<times> int \<times> rat \<times> rat \<times> datetime" where
  "without_id r =
     (w_humanoid r, w_n_posts r, w_avg_score r, w_avg_comments r, w_partition_date r)"

section \<open>Change-detection sensor (sensors/__init__.py)\<close>

text \<open>JSON values as \<^verbatim>\<open>json.load\<close> returns them (numbers restricted to integers).\<close>

datatype json =
    JNull
  | JBool bool
  | JNum int
  | JStr string
  | JArr "json list"
  | JObj "(string \<times> json) list"

text \<open>
  An entry of the summaries directory as the sensor sees it: its name, whether it is a
  regular file, its modification time, and what \<^verbatim>\<open>json.load\<close> returns on it (\<open>None\<close>
  when the content does not decode). The type \<open>'m\<close> of modification times stands for
  Python's floats.
\<close>

record 'm dir_entry =
  filename :: string
  isfile :: bool
  getmtime :: 'm
  json_load :: "json option"

record run_request =
  run_key :: string
  config_filename :: string
  config_summaries :: json

definition endswith :: "string \<Rightarrow> string \<Rightarrow> bool" where
  "endswith s suffix = startswith (rev s) (rev suffix)"

text \<open>
  \<^verbatim>\<open>d[k] = v\<close> on a dictionary kept as an association list in insertion order: a key
  that is present keeps its place.
\<close>

fun dict_set :: "('k \<times> 'v) list \<Rightarrow> 'k \<Rightarrow> 'v \<Rightarrow> ('k \<times> 'v) list" where
  "dict_set [] k v = [(k, v)]"
| "dict_set ((k', v') # d) k v =
     (if k' = k then (k, v) # d else (k', v') # dict_set d k v)"

text \<open>
  The run key. \<open>str\<close> is Python's \<^verbatim>\<open>str\<close> on the modification time, a parameter of
  the model.
\<close>

definition make_run_key :: "('m \<Rightarrow> string) \<Rightarrow> string \<Rightarrow> 'm \<Rightarrow> string" where
  "make_run_key str name last_modified =
     ''generate_pdf_reports_'' @ name @ ''_'' @ str last_modified"

text \<open>The loop over \<^verbatim>\<open>os.listdir(PATH_TO_SUMMARIES)\<close>.\<close>

fun sensor_loop ::
  "('m \<Rightarrow> string) \<Rightarrow> (string \<times> 'm) list \<Rightarrow> 'm dir_entry list \<Rightarrow> (string \<times> 'm) list \<Rightarrow>
   run_request list \<Rightarrow> py_error + (run_request list \<times> (string \<times> 'm) list)"
where
  "sensor_loop str previous_state [] current_state runs_to_request =
     Inr (runs_to_request, current_state)"
| "sensor_loop str previous_state (e # es) current_state runs_to_request =
     (if endswith (filename e) ''.json'' \<and> isfile e then
        (let last_modified = getmtime e;
             current_state' = dict_set current_state (filename e) last_modified
         in if (case map_of previous_state (filename e) of
                  None \<Rightarrow> True
                | Some recorded \<Rightarrow> recorded \<noteq> last_modified)
            then
              (case json_load e of
                 None \<Rightarrow> Inl JSONDecodeError
               | Some summaries_json \<Rightarrow>
                   sensor_loop str previous_state es current_state'
                     (runs_to_request @
                      [\<lparr>run_key = make_run_key str (filename e) last_modified,
                        config_filename = filename e,
                        config_summaries = summaries_json\<rparr>]))
            else sensor_loop str previous_state es current_state' runs_to_request)
      else sensor_loop str previous_state es current_state runs_to_request)"

text \<open>
  One evaluation of the sensor. The cursor is the previous mapping, or \<open>None\<close> before the
  first evaluation; the result is the run requests and the new cursor.
\<close>

definition generate_pdf_reports_sensor ::
  "('m \<Rightarrow> string) \<Rightarrow> (string \<times> 'm) list option \<Rightarrow> 'm dir_entry list \<Rightarrow>
   py_error + (run_request list \<times> (string \<times> 'm) list)"
where
  "generate_pdf_reports_sensor str cursor listing =
     (let previous_state = (case cursor of None \<Rightarrow> [] | Some c \<Rightarrow> c)
      in sensor_loop str previous_state listing [] [])"

text \<open>
  A sequence of evaluations, one per observed listing, with the cursor threaded through.
  An evaluation that raises requests nothing and leaves the cursor as it was.
\<close>

fun sensor_evaluations ::
  "('m \<Rightarrow> string) \<Rightarrow> (string \<times> 'm) list option \<Rightarrow> 'm dir_entry list list \<Rightarrow>
   run_request list list"
where
  "sensor_evaluations str cursor [] = []"
| "sensor_evaluations str cursor (listing # rest) =
     (case generate_pdf_reports_sensor str cursor listing of
        Inl e \<Rightarrow> [] # sensor_evaluations str cursor rest
      | Inr (runs, c) \<Rightarrow> runs # sensor_evaluations str (Some c) rest)"

text \<open>
  The words of the specification: a summary file is a listed regular file whose name ends
  in \<^verbatim>\<open>.json\<close>; it has changed when the cursor has no entry for it or records another
  modification time.
\<close>

definition is_summary_file :: "'m dir_entry \<Rightarrow> bool" where
  "is_summary_file e = (endswith (filename e) ''.json'' \<and> isfile e)"

definition changed :: "(string \<times> 'm) list \<Rightarrow> 'm dir_entry \<Rightarrow> bool" where
  "changed previous_state e =
     (map_of previous_state (filename e) = None \<or>
      map_of previous_state (filename e) \<noteq> Some (getmtime e))"

definition request_for :: "('m \<Rightarrow> string) \<Rightarrow> 'm dir_entry \<Rightarrow> run_request" where
  "request_for str e =
     \<lparr>run_key = make_run_key str (filename e) (getmtime e),
      config_filename = filename e,
      config_summaries = the (json_load e)\<rparr>"

definition observed :: "'m dir_entry list \<Rightarrow> (string \<times> 'm) list" where
  "observed listing = map (\<lambda>e. (filename e, getmtime e)) (filter is_summary_file listing)"

text \<open>
  A pair of a file name and a modification time comes back in a sequence of listings when
  a listing observes it, a later one does not (the file is modified or absent there), and
  a still later one observes it again. \<open>gone p ls\<close>: none of the listings observes the
  pair; \<open>stays_then_gone p ls\<close>: the pair is observed by the first listings, up to some
  point, and by none after it; \<open>no_pair_returns ls\<close>: no pair comes back.
\<close>

definition gone :: "string \<times> 'm \<Rightarrow> 'm dir_entry list list \<Rightarrow> bool" where
  "gone p ls = list_all (\<lambda>l. p \<notin> set (observed l)) ls"

fun stays_then_gone :: "string \<times> 'm \<Rightarrow> 'm dir_entry list list \<Rightarrow> bool" where
  "stays_then_gone p [] = True"
| "stays_then_gone p (l # ls) =
     (if p \<in> set (observed l) then stays_then_gone p ls else gone p ls)"

fun no_pair_returns :: "'m dir_entry list list \<Rightarrow> bool" where
  "no_pair_returns [] = True"
| "no_pair_returns (l # ls) =
     (list_all (\<lambda>p. stays_then_gone p ls) (observed l) \<and> no_pair_returns ls)"

text \<open>Decimal text of an integer (\<^verbatim>\<open>str\<close> on an int), and the text of a whole-second float.\<close>

function str_digits :: "int \<Rightarrow> string" where
  "str_digits n =
     (if n < 10 then [char_of (48 + n)]
      else str_digits (n div 10) @ [char_of (48 + n mod 10)])"
  by pat_completeness auto
termination
  by (relation "measure nat") auto

definition str_int :: "int \<Rightarrow> string" where
  "str_int i = (if i < 0 then ''-'' @ str_digits (- i) else str_digits i)"

definition str_seconds :: "int \<Rightarrow> string" where
  "str_seconds t = str_int t @ ''.0''"

section \<open>Summarization (assets/summaries.py)\<close>

record comment =
  body :: string
  comment_score :: int
  author :: "string option"

text \<open>
  What the stage takes from outside: the forum's answer to \<^verbatim>\<open>reddit.submission(id=...)\<close>
  at a given attempt; the comments of a post after \<^verbatim>\<open>replace_more(limit=None)\<close>, or
  the exception it raises; the language model's answer to the \<open>n\<close>-th request of the
  run, as the content of the response or the exception raised; \<^verbatim>\<open>json.loads\<close>
  (\<open>None\<close> when the text does not decode); the constant
  \<^verbatim>\<open>constants.POST_SUMMARIES_TEMPLATE_FILE_PATH\<close>, as the function from the partition
  key to the name of the file in the summaries directory; and the time the file system
  stamps on a written file.
\<close>

record 'm services =
  reddit_submission :: "string \<Rightarrow> nat \<Rightarrow> py_error + submission"
  comments_list :: "submission \<Rightarrow> py_error + comment list"
  chat_completion :: "nat \<Rightarrow> string \<Rightarrow> py_error + string"
  json_loads :: "string \<Rightarrow> json option"
  POST_SUMMARIES_TEMPLATE_FILE_PATH :: "string \<Rightarrow> string"
  clock :: 'm

text \<open>
  What the stage acts on: the summaries directory and the log of the requests sent to
  the language model so far.
\<close>

record 'm world =
  directory :: "'m dir_entry list"
  llm_requests :: "string list"

text \<open>
  The retry loop around \<^verbatim>\<open>reddit.submission\<close>. A loop that ends without \<^verbatim>\<open>break\<close>
  leaves \<^verbatim>\<open>post\<close> unbound, and the next statement raises.
\<close>

fun fetch_post :: "(nat \<Rightarrow> py_error + submission) \<Rightarrow> nat list \<Rightarrow> py_error + submission" where
  "fetch_post attempt_of [] = Inl OtherError"
| "fetch_post attempt_of (attempt # rest) =
     (case attempt_of attempt of
        Inr post \<Rightarrow> Inr post
      | Inl e \<Rightarrow>
          if e = ServerError then
            (if attempt < retries - 1 then fetch_post attempt_of rest else Inl e)
          else Inl e)"

definition flatten_comment :: "comment \<Rightarrow> string" where
  "flatten_comment c =
     ''- '' @ body c @ '' (Score: '' @ str_int (comment_score c) @ '', Author: '' @
     (case author c of Some a \<Rightarrow> a | None \<Rightarrow> ''[deleted]'') @ '')''"

definition flattened_comments_str :: "comment list \<Rightarrow> string" where
  "flattened_comments_str comments = join [CHR 0x0A] (map flatten_comment comments)"

text \<open>
  \<^verbatim>\<open>{"post_id": ..., ..., **summary_dict}\<close>: the decoded fields are set after the
  metadata, so a decoded key that repeats a metadata key replaces its value.
\<close>

definition summary_with_metadata :: "posts_row \<Rightarrow> submission \<Rightarrow> (string \<times> json) list \<Rightarrow> json" where
  "summary_with_metadata row post summary_dict =
     JObj (foldl (\<lambda>d (k, v). dict_set d k v)
             [(''post_id'', JStr (s_id post)),
              (''n_comments'', JNum (s_num_comments post)),
              (''post_permalink'', JStr (s_permalink post)),
              (''humanoid'', (case humanoid row of None \<Rightarrow> JNull | Some h \<Rightarrow> JStr h)),
              (''title'', JStr (s_title post))]
             summary_dict)"

text \<open>
  The loop over \<^verbatim>\<open>partition_df.iterrows()\<close>, with the log of the requests sent to the
  language model. Any exception ends the loop; a decoded value that is not an object
  makes \<^verbatim>\<open>**summary_dict\<close> raise.
\<close>

fun summarize_rows ::
  "'m services \<Rightarrow> posts_row list \<Rightarrow> json list \<Rightarrow> string list \<Rightarrow>
   (py_error + json list) \<times> string list"
where
  "summarize_rows S [] all_summaries sent = (Inr all_summaries, sent)"
| "summarize_rows S (row # rows) all_summaries sent =
     (case fetch_post (reddit_submission S (post_id row)) [0 ..< retries] of
        Inl e \<Rightarrow> (Inl e, sent)
      | Inr post \<Rightarrow>
          (case comments_list S post of
             Inl e \<Rightarrow> (Inl e, sent)
           | Inr comments \<Rightarrow>
               (let request = flattened_comments_str comments;
                    sent' = sent @ [request]
                in case chat_completion S (length sent) request of
                     Inl e \<Rightarrow> (Inl e, sent')
                   | Inr summary_json_str \<Rightarrow>
                       (case json_loads S summary_json_str of
                          None \<Rightarrow> (Inl JSONDecodeError, sent')
                        | Some (JObj summary_dict) \<Rightarrow>
                            summarize_rows S rows
                              (all_summaries @ [summary_with_metadata row post summary_dict])
                              sent'
                        | Some _ \<Rightarrow> (Inl OtherError, sent')))))"

text \<open>
  \<^verbatim>\<open>open(output_file, "w")\<close> followed by \<^verbatim>\<open>json.dump\<close>: the file is created, or
  replaced when a regular file of that name exists.
\<close>

fun write_file :: "'m dir_entry list \<Rightarrow> string \<Rightarrow> 'm \<Rightarrow> json \<Rightarrow> py_error + 'm dir_entry list" where
  "write_file [] name t content =
     Inr [\<lparr>filename = name, isfile = True, getmtime = t, json_load = Some content\<rparr>]"
| "write_file (e # es) name t content =
     (if filename e = name then
        (if isfile e then Inr (e\<lparr>getmtime := t, json_load := Some content\<rparr> # es)
         else Inl OtherError)
      else (case write_file es name t content of
              Inl x \<Rightarrow> Inl x
            | Inr es' \<Rightarrow> Inr (e # es')))"

definition summarize_robot_posts ::
  "'m services \<Rightarrow> env \<Rightarrow> string \<Rightarrow> db \<Rightarrow> 'm world \<Rightarrow> (py_error + unit) \<times> 'm world"
where
  "summarize_robot_posts S E partition_date_str D W =
     (case daily_window (utcoffset E) partition_date_str of
        Inl e \<Rightarrow> (Inl e, W)
      | Inr w \<Rightarrow>
          (case robot_posts_query w D of
             Inl e \<Rightarrow> (Inl e, W)
           | Inr partition_df \<Rightarrow>
               if length partition_df > 0 then
                 (case summarize_rows S partition_df [] (llm_requests W) of
                    (Inl e, sent) \<Rightarrow> (Inl e, W\<lparr>llm_requests := sent\<rparr>)
                  | (Inr all_summaries, sent) \<Rightarrow>
                      (case write_file (directory W)
                              (POST_SUMMARIES_TEMPLATE_FILE_PATH S partition_date_str)
                              (clock S) (JArr all_summaries) of
                         Inl e \<Rightarrow> (Inl e, W\<lparr>llm_requests := sent\<rparr>)
                       | Inr dir \<Rightarrow> (Inr (), W\<lparr>directory := dir, llm_requests := sent\<rparr>)))
               else (Inr (), W)))"


section \<open>Example data\<close>

definition post_a :: submission where
  "post_a =
     \<lparr>s_id = ''a'', s_title = ''Figure 02 robot'', s_permalink = ''/r/robotics/a'',
      s_url = ''https://example.org/a'', s_created_utc = 1714953610, s_score = 3,
      s_num_comments = 1\<rparr>"

text \<open>A post created at 2024-05-07 00:00:00 UTC, the end instant of the window of 2024-05-06.\<close>

definition post_b :: submission where
  "post_b =
     \<lparr>s_id = ''b'', s_title = ''1x Neo humanoid unveiled'', s_permalink = ''/r/robotics/b'',
      s_url = ''https://example.org/b'', s_created_utc = 1715040000, s_score = 5,
      s_num_comments = 2\<rparr>"

definition utc_fromtimestamp :: "int \<Rightarrow> datetime" where
  "utc_fromtimestamp t = \<lparr>ordinal = 719163 + t div 86400, second_of_day = t mod 86400\<rparr>"

definition steady_listing :: "string \<Rightarrow> nat \<Rightarrow> listing" where
  "steady_listing subreddit_name attempt = \<lparr>yielded = [post_b, post_a], raised = None\<rparr>"

text \<open>
  The averages of the example data have one decimal and are doubles (7 / 2), so there
  \<^verbatim>\<open>ROUND(AVG(x), 2)\<close> is the quotient itself.
\<close>

definition quotient :: "int \<Rightarrow> int \<Rightarrow> rat" where
  "quotient s n = of_int s / of_int n"

text \<open>A place for each label: the three brands first, in alphabetical order.\<close>

definition example_rank :: "string option \<Rightarrow> nat" where
  "example_rank h =
     (if h = Some ''figure'' then 0 else if h = Some ''neo'' then 1
      else if h = Some ''optimus'' then 2 else 3)"

definition example_env :: env where
  "example_env =
     \<lparr>utcoffset = utc, fromtimestamp = utc_fromtimestamp, SUBREDDITS = [''robotics''],
      subreddit_new = steady_listing, round_avg = quotient\<rparr>"

definition empty_db :: db where
  "empty_db = \<lparr>posts = [], robot_posts = [], weekly_post_metrics = [], seq_weekly_id = 1\<rparr>"

text \<open>A database with two classified posts of Monday 2024-05-06 and no weekly metrics yet.\<close>

definition labelled_db :: db where
  "labelled_db =
     \<lparr>posts =
        [\<lparr>post_id = ''a'', humanoid = Some ''figure'', subreddit = ''robotics'',
          title = ''Figure 02 robot'', created_utc = 1714953610,
          created_local = \<lparr>ordinal = 739012, second_of_day = 10\<rparr>, score = 3,
          n_comments = 1, partition_date = ''2024-05-06''\<rparr>,
         \<lparr>post_id = ''c'', humanoid = Some ''figure'', subreddit = ''robotics'',
          title = ''Figure 01 humanoid at work'', created_utc = 1714960000,
          created_local = \<lparr>ordinal = 739012, second_of_day = 6400\<rparr>, score = 4,
          n_comments = 6, partition_date = ''2024-05-06''\<rparr>],
      robot_posts = [], weekly_post_metrics = [], seq_weekly_id = 1\<rparr>"

text \<open>
  A classified partition with one post about a single brand and one whose title matches
  two brand rules.
\<close>

definition figure_row :: posts_row where
  "figure_row =
     \<lparr>post_id = ''a'', humanoid = Some ''figure'', subreddit = ''robotics'',
      title = ''Figure 02 robot'', created_utc = 1714953610,
      created_local = \<lparr>ordinal = 739012, second_of_day = 10\<rparr>, score = 3,
      n_comments = 1, partition_date = ''2024-05-06''\<rparr>"

definition compound_row :: posts_row where
  "compound_row =
     \<lparr>post_id = ''e'', humanoid = Some ''optimus-neo'', subreddit = ''robotics'',
      title = ''Tesla Optimus and 1X Neo robot'', created_utc = 1714953700,
      created_local = \<lparr>ordinal = 739012, second_of_day = 100\<rparr>, score = 9,
      n_comments = 4, partition_date = ''2024-05-06''\<rparr>"

definition compound_db :: db where
  "compound_db =
     \<lparr>posts = [figure_row, compound_row], robot_posts = [], weekly_post_metrics = [],
      seq_weekly_id = 1\<rparr>"

text \<open>Three observations of one summary file: written, rewritten, restored with its first time.\<close>

definition report_at :: "int \<Rightarrow> int dir_entry" where
  "report_at t =
     \<lparr>filename = ''report_2024-05-06.json'', isfile = True, getmtime = t,
      json_load = Some (JArr [])\<rparr>"

text \<open>A summary file that does not decode.\<close>

definition broken_report :: "int dir_entry" where
  "broken_report =
     \<lparr>filename = ''report_2024-05-07.json'', isfile = True, getmtime = 1715000100,
      json_load = None\<rparr>"



definition example_submission :: "string \<Rightarrow> nat \<Rightarrow> py_error + submission" where
  "example_submission i attempt =
     Inr \<lparr>s_id = i, s_title = ''a title'', s_permalink = ''/r/robotics/'' @ i,
          s_url = ''https://example.org/'' @ i, s_created_utc = 1714953610, s_score = 3,
          s_num_comments = 1\<rparr>"

definition example_comments :: "submission \<Rightarrow> py_error + comment list" where
  "example_comments post =
     Inr [\<lparr>body = ''about '' @ s_id post, comment_score = 2, author = None\<rparr>]"

definition example_chat :: "nat \<Rightarrow> string \<Rightarrow> py_error + string" where
  "example_chat k request = (if k = 0 then Inr ''good'' else Inr ''bad'')"

definition example_loads :: "string \<Rightarrow> json option" where
  "example_loads answer =
     (if answer = ''good'' then Some (JObj [(''summary'', JStr ''s''), (''themes'', JArr [])])
      else None)"

definition example_template :: "string \<Rightarrow> string" where
  "example_template partition_date_str = ''report_'' @ partition_date_str @ ''.json''"

definition example_services :: "int services" where
  "example_services =
     \<lparr>reddit_submission = example_submission, comments_list = example_comments,
      chat_completion = example_chat, json_loads = example_loads,
      POST_SUMMARIES_TEMPLATE_FILE_PATH = example_template, clock = 1715000000\<rparr>"

definition empty_world :: "int world" where
  "empty_world = \<lparr>directory = [], llm_requests = []\<rparr>"

text \<open>A world in which an earlier run has left the summary file of 2024-05-06.\<close>

definition stale_world :: "int world" where
  "stale_world = \<lparr>directory = [report_at 1715000000], llm_requests = []\<rparr>"

section \<open>Verified properties\<close>

subsection \<open>Classification\<close>

lemma labels_fold:
  "foldl (label_step t) [] robots =
     (if optimus_rule t then [''optimus''] else []) @
     (if figure_rule t then [''figure''] else []) @
     (if neo_rule t then [''neo''] else [])"
  by (auto simp: robots_def label_step_def any_in_def exclusion_patterns_def neo_patterns_def
      optimus_rule_def figure_rule_def neo_rule_def)

lemma matched_brands_unfold:
  "matched_brands t =
     (if optimus_rule t then [''optimus''] else []) @
     (if figure_rule t then [''figure''] else []) @
     (if neo_rule t then [''neo''] else [])"
  by (simp add: matched_brands_def brand_rules_def)

lemma labels_fold_matched: "foldl (label_step t) [] robots = matched_brands t"
  by (simp only: labels_fold matched_brands_unfold)

lemma get_post_labels_matched:
  "get_post_labels ttl =
     (let t = lower ttl; ms = matched_brands t;
          ls = (if ms = [] then (if str_in ''humanoid'' t then [''other''] else [''none'']) else ms)
      in if length ls > 1 then Inr (join ''-'' ls) else Inr (hd ls))"
  by (simp add: get_post_labels_def labels_fold_matched Let_def split: list.splits)

text \<open>
  Claim C1. For every title the label is a function of the lower-cased title alone: a
  brand is among the matched brands exactly when its own rule holds, the matched brands
  keep the order optimus, figure, neo; with no match the label is \<open>other\<close> when
  \<open>humanoid\<close> occurs in the lower-cased title and \<open>none\<close> otherwise; with one match it
  is that brand; with more than one it is the matched brands joined by \<open>-\<close>.
\<close>

theorem get_post_labels_spec:
  "(let t = lower ttl; ms = matched_brands t in
     (ms = [] \<and> str_in ''humanoid'' t \<longrightarrow> get_post_labels ttl = Inr ''other'') \<and>
     (ms = [] \<and> \<not> str_in ''humanoid'' t \<longrightarrow> get_post_labels ttl = Inr ''none'') \<and>
     (\<forall>b. ms = [b] \<longrightarrow> get_post_labels ttl = Inr b) \<and>
     (length ms > 1 \<longrightarrow> get_post_labels ttl = Inr (join ''-'' ms)) \<and>
     ms = filter (\<lambda>b. b \<in> set ms) [''optimus'', ''figure'', ''neo''] \<and>
     (''optimus'' \<in> set ms \<longleftrightarrow> optimus_rule t) \<and>
     (''figure'' \<in> set ms \<longleftrightarrow> figure_rule t) \<and>
     (''neo'' \<in> set ms \<longleftrightarrow> neo_rule t))"
proof -
  define t where "t = lower ttl"
  define ms where "ms = matched_brands t"
  have g: "get_post_labels ttl =
     (let ls = (if ms = [] then (if str_in ''humanoid'' t then [''other''] else [''none'']) else ms)
      in if length ls > 1 then Inr (join ''-'' ls) else Inr (hd ls))"
    by (simp add: get_post_labels_matched t_def ms_def Let_def)
  have 1: "ms = [] \<and> str_in ''humanoid'' t \<longrightarrow> get_post_labels ttl = Inr ''other''"
    by (simp add: g)
  have 2: "ms = [] \<and> \<not> str_in ''humanoid'' t \<longrightarrow> get_post_labels ttl = Inr ''none''"
    by (simp add: g)
  have 3: "\<forall>b. ms = [b] \<longrightarrow> get_post_labels ttl = Inr b"
    by (simp add: g)
  have 4: "length ms > 1 \<longrightarrow> get_post_labels ttl = Inr (join ''-'' ms)"
    by (auto simp: g)
  have 5: "ms = filter (\<lambda>b. b \<in> set ms) [''optimus'', ''figure'', ''neo'']"
    unfolding ms_def matched_brands_unfold by auto
  have 6: "''optimus'' \<in> set ms \<longleftrightarrow> optimus_rule t"
    unfolding ms_def matched_brands_unfold by auto
  have 7: "''figure'' \<in> set ms \<longleftrightarrow> figure_rule t"
    unfolding ms_def matched_brands_unfold by auto
  have 8: "''neo'' \<in> set ms \<longleftrightarrow> neo_rule t"
    unfolding ms_def matched_brands_unfold by auto
  from 1 2 3 4 5 6 7 8 show ?thesis
    unfolding Let_def t_def [symmetric] ms_def [symmetric] by blast
qed

theorem get_post_labels_spec_witness:
  "1 < length (matched_brands (lower ''Tesla Optimus vs Figure 02 robot'')) \<and>
   get_post_labels ''Tesla Optimus vs Figure 02 robot'' = Inr ''optimus-figure''"
proof -
  have h: "matched_brands (lower ''Tesla Optimus vs Figure 02 robot'') = [''optimus'', ''figure'']"
    by code_simp
  from get_post_labels_spec [of "''Tesla Optimus vs Figure 02 robot''"] h
  show ?thesis by (simp add: Let_def)
qed

text \<open>
  Claim C2, as stated, gives the label \<open>none\<close> to the second title; the code gives it
  \<open>other\<close>, since no brand matches and \<open>humanoid\<close> occurs in the title.
\<close>

theorem scenario_titles_counterexample:
  "get_post_labels ''How to figure out if a robot is humanoid'' \<noteq> Inr ''none''"
  by code_simp

text \<open>
  Claim C2, amended: the three scenario titles are labelled \<open>optimus\<close>, \<open>other\<close> and
  \<open>neo\<close>.
\<close>

theorem scenario_titles:
  "get_post_labels ''Tesla Optimus humanoid robot shown walking'' = Inr ''optimus'' \<and>
   get_post_labels ''How to figure out if a robot is humanoid'' = Inr ''other'' \<and>
   get_post_labels ''1x Neo humanoid unveiled'' = Inr ''neo''"
  by code_simp

subsection \<open>Partition calendar\<close>

lemma nonneg_combination:
  fixes n a b c :: int
  assumes "0 \<le> n" "0 \<le> a" "0 \<le> c" "b \<le> n"
  shows "0 \<le> n * 365 + a - b + c"
  using assms by linarith

lemma days_before_year_nonneg: "1 \<le> y \<Longrightarrow> 0 \<le> days_before_year y"
proof -
  assume y: "1 \<le> y"
  have a: "0 \<le> (y - 1) div 4" "0 \<le> (y - 1) div 400" using y by simp_all
  have b: "(y - 1) div 100 \<le> y - 1" using y
    by (metis diff_ge_0_iff_ge div_by_1 one_le_numeral zdiv_mono2 zero_less_one)
  show ?thesis unfolding days_before_year_def
    by (rule nonneg_combination) (use a b y in simp_all)
qed

lemma days_in_month_pos: "0 < days_in_month y m"
  by (simp add: days_in_month_def)

lemma days_before_month_nonneg: "0 \<le> days_before_month y m"
  unfolding days_before_month_def
  by (rule sum_list_nonneg) (auto simp: less_imp_le [OF days_in_month_pos])

lemma strptime_Inr:
  assumes "strptime key = Inr d"
  shows "1 \<le> ordinal d \<and> second_of_day d = 0"
proof -
  from assms obtain y m dd where
    d: "d = \<lparr>ordinal = ymd2ord y m dd, second_of_day = 0\<rparr>" and y: "1 \<le> y" and dd: "1 \<le> dd"
    by (auto simp: strptime_def split: if_splits option.splits)
  have "1 \<le> ymd2ord y m dd"
    using days_before_year_nonneg [OF y] days_before_month_nonneg [of y m] dd
    by (simp add: ymd2ord_def)
  with d show ?thesis by simp
qed

lemma monday_in_range:
  assumes "1 \<le> (n::int)"
  shows "1 \<le> n + - ((n + 6) mod 7)" and "n + - ((n + 6) mod 7) \<le> n"
    and "(n + - ((n + 6) mod 7) + 6) mod 7 = 0"
  using assms by presburger+

text \<open>
  Claim C3, amended. For every well-formed key other than 9999-12-31: the daily window
  starts at local midnight of the partition date and ends at local midnight of the next
  day, one calendar day later (86400 epoch seconds when the zone's offset is the same at
  both midnights); the week window starts at midnight of the Monday on or before the
  partition date and ends at midnight of the day after the partition date, so it is
  \<open>weekday + 1\<close> days wide: between 1 and 7 days, and 7 days exactly when the partition
  date is a Sunday.
\<close>

theorem windows_of_valid_key:
  assumes "strptime key = Inr d" and "ordinal d < 3652059"
  shows "(\<exists>w. daily_window tz key = Inr w \<and>
            start_date w = d \<and> second_of_day (start_date w) = 0 \<and>
            second_of_day (end_date w) = 0 \<and> width_days w = 1 \<and>
            width_seconds w = 86400 + (tz (start_date w) - tz (end_date w))) \<and>
         (\<exists>w. week_window tz key = Inr w \<and>
            weekday (start_date w) = 0 \<and> second_of_day (start_date w) = 0 \<and>
            second_of_day (end_date w) = 0 \<and>
            ordinal (start_date w) \<le> ordinal d \<and> ordinal d - ordinal (start_date w) \<le> 6 \<and>
            ordinal (end_date w) = ordinal d + 1 \<and>
            width_days w = weekday d + 1 \<and> 1 \<le> width_days w \<and> width_days w \<le> 7 \<and>
            (width_days w = 7 \<longleftrightarrow> weekday d = 6))"
proof -
  from strptime_Inr [OF assms(1)] have o1: "1 \<le> ordinal d" and s0: "second_of_day d = 0"
    by simp_all
  have e: "add_days d 1 = Inr (d\<lparr>ordinal := ordinal d + 1\<rparr>)"
    using o1 assms(2) by (simp add: add_days_def)
  have m: "add_days d (- weekday d) = Inr (d\<lparr>ordinal := ordinal d + - weekday d\<rparr>)"
    using monday_in_range(1,2) [OF o1] assms(2) by (simp add: add_days_def weekday_def Let_def)
  have wd: "0 \<le> weekday d" "weekday d \<le> 6"
    by (simp_all add: weekday_def)
  have day: "\<exists>w. daily_window tz key = Inr w \<and>
            start_date w = d \<and> second_of_day (start_date w) = 0 \<and>
            second_of_day (end_date w) = 0 \<and> width_days w = 1 \<and>
            width_seconds w = 86400 + (tz (start_date w) - tz (end_date w))"
    using assms(1) e s0
    by (simp add: daily_window_def width_days_def width_seconds_def mktime_def)
  have week: "\<exists>w. week_window tz key = Inr w \<and>
            weekday (start_date w) = 0 \<and> second_of_day (start_date w) = 0 \<and>
            second_of_day (end_date w) = 0 \<and>
            ordinal (start_date w) \<le> ordinal d \<and> ordinal d - ordinal (start_date w) \<le> 6 \<and>
            ordinal (end_date w) = ordinal d + 1 \<and>
            width_days w = weekday d + 1 \<and> 1 \<le> width_days w \<and> width_days w \<le> 7 \<and>
            (width_days w = 7 \<longleftrightarrow> weekday d = 6)"
    using assms(1) e m s0 wd monday_in_range(3) [OF o1]
    by (simp add: week_window_def width_days_def weekday_def)
  from day week show ?thesis by blast
qed

theorem windows_of_valid_key_witness:
  "strptime ''2024-05-08'' = Inr \<lparr>ordinal = 739014, second_of_day = 0\<rparr> \<and>
   (\<exists>w. daily_window utc ''2024-05-08'' = Inr w \<and> width_seconds w = 86400) \<and>
   (\<exists>w. week_window utc ''2024-05-08'' = Inr w \<and> weekday (start_date w) = 0 \<and> width_days w = 3)"
proof -
  have h: "strptime ''2024-05-08'' = Inr \<lparr>ordinal = 739014, second_of_day = 0\<rparr>"
    by code_simp
  have b: "ordinal \<lparr>ordinal = 739014, second_of_day = 0\<rparr> < 3652059"
    by simp
  have wd: "weekday \<lparr>ordinal = 739014, second_of_day = 0\<rparr> = 2"
    by (simp add: weekday_def)
  from windows_of_valid_key [OF h b, of utc] h wd show ?thesis
    by (auto simp: utc_def)
qed

text \<open>
  Claim C3, as stated, makes the week window exactly 7 days wide. For the Wednesday
  2024-05-08 the code's week window runs from Monday 2024-05-06 to Thursday 2024-05-09:
  3 days.
\<close>

theorem week_window_width_counterexample:
  "week_window utc ''2024-05-08'' =
     Inr \<lparr>start_date = \<lparr>ordinal = 739012, second_of_day = 0\<rparr>,
          end_date = \<lparr>ordinal = 739015, second_of_day = 0\<rparr>,
          start_timestamp = 1714953600, end_timestamp = 1715212800\<rparr> \<and>
   width_days \<lparr>start_date = \<lparr>ordinal = 739012, second_of_day = 0\<rparr>,
          end_date = \<lparr>ordinal = 739015, second_of_day = 0\<rparr>,
          start_timestamp = 1714953600, end_timestamp = 1715212800\<rparr> \<noteq> 7"
  by code_simp

subsection \<open>Ingestion\<close>

text \<open>
  Claim C4 at a failing input. Partition 2024-05-06 in UTC, an empty database, and an
  upstream listing of two posts: \<open>a\<close> inside the window and \<open>b\<close> created at the end
  instant of the window. The fetch filter keeps both (its upper bound is inclusive), so
  the first run stores two rows. The second run deletes \<open>a\<close> only (the delete's upper
  bound is exclusive), and the insert of \<open>a\<close> and \<open>b\<close> then violates the primary key:
  the run raises and leaves the window with no row where it had one.
\<close>

theorem reingestion_boundary_post:
  "fst (fetch_daily_reddit_posts example_env ''2024-05-06'' empty_db) = Inr 2 \<and>
   map post_id (posts (snd (fetch_daily_reddit_posts example_env ''2024-05-06'' empty_db))) =
     [''b'', ''a''] \<and>
   fst (fetch_daily_reddit_posts example_env ''2024-05-06''
          (snd (fetch_daily_reddit_posts example_env ''2024-05-06'' empty_db))) =
     Inl ConstraintException \<and>
   map post_id (posts (snd (fetch_daily_reddit_posts example_env ''2024-05-06''
          (snd (fetch_daily_reddit_posts example_env ''2024-05-06'' empty_db))))) = [''b'']"
  by code_simp

lemma fetch_subreddit_in_window:
  assumes "fetch_subreddit E w n as acc = Inr r"
    and "\<forall>d \<in> set acc. start_timestamp w \<le> f_created_utc d \<and> f_created_utc d < end_timestamp w"
    and "\<forall>k. \<forall>p \<in> set (yielded (subreddit_new E n k)). s_created_utc p \<noteq> end_timestamp w"
  shows "\<forall>d \<in> set r. start_timestamp w \<le> f_created_utc d \<and> f_created_utc d < end_timestamp w"
  using assms
proof (induction as arbitrary: acc)
  case Nil
  then show ?case by simp
next
  case (Cons a as)
  let ?l = "subreddit_new E n a"
  let ?acc = "acc @ map (to_dict E n) (filter (in_date_range w) (yielded ?l))"
  have inw: "\<forall>d \<in> set ?acc. start_timestamp w \<le> f_created_utc d \<and> f_created_utc d < end_timestamp w"
    using Cons.prems(2,3) by (fastforce simp: to_dict_def in_date_range_def)
  show ?case
  proof (cases "raised ?l")
    case None
    with Cons.prems(1) have "r = ?acc" by (simp add: Let_def)
    with inw show ?thesis by blast
  next
    case (Some e)
    with Cons.prems(1) have "fetch_subreddit E w n as ?acc = Inr r"
      by (simp add: Let_def split: if_splits)
    from Cons.IH [OF this inw Cons.prems(3)] show ?thesis .
  qed
qed

lemma fetch_subreddits_in_window:
  assumes "fetch_subreddits E w ns acc = Inr r"
    and "\<forall>d \<in> set acc. start_timestamp w \<le> f_created_utc d \<and> f_created_utc d < end_timestamp w"
    and "\<forall>n \<in> set ns. \<forall>k. \<forall>p \<in> set (yielded (subreddit_new E n k)). s_created_utc p \<noteq> end_timestamp w"
  shows "\<forall>d \<in> set r. start_timestamp w \<le> f_created_utc d \<and> f_created_utc d < end_timestamp w"
  using assms
proof (induction ns arbitrary: acc)
  case Nil
  then show ?case by simp
next
  case (Cons n ns)
  from Cons.prems(1) obtain acc' where
    a: "fetch_subreddit E w n [0 ..< retries] acc = Inr acc'" and
    b: "fetch_subreddits E w ns acc' = Inr r"
    by (auto split: sum.splits)
  have "\<forall>d \<in> set acc'. start_timestamp w \<le> f_created_utc d \<and> f_created_utc d < end_timestamp w"
    using fetch_subreddit_in_window [OF a Cons.prems(2)] Cons.prems(3) by simp
  from Cons.IH [OF b this] Cons.prems(3) show ?case by simp
qed

lemma delete_query_idem: "delete_query w (delete_query w t) = delete_query w t"
  by (simp add: delete_query_def)

lemma delete_query_append: "delete_query w (t @ u) = delete_query w t @ delete_query w u"
  by (simp add: delete_query_def)

lemma delete_query_all_in_window: "\<forall>r \<in> set u. in_window w r \<Longrightarrow> delete_query w u = []"
  by (simp add: delete_query_def)

text \<open>
  Without a post at the end instant of the window, re-ingestion is idempotent: the second
  run over the same upstream listings succeeds and leaves the database as the first run
  left it.
\<close>

lemma reingestion_idempotent_inside_window:
  assumes w: "daily_window (utcoffset E) key = Inr w"
    and run: "fetch_daily_reddit_posts E key D = (Inr n, D1)"
    and inside: "\<forall>sr \<in> set (SUBREDDITS E). \<forall>k. \<forall>p \<in> set (yielded (subreddit_new E sr k)).
                   s_created_utc p \<noteq> end_timestamp w"
  shows "fetch_daily_reddit_posts E key D1 = (Inr n, D1)"
proof -
  from run w obtain batch tbl where
    f: "fetch_subreddits E w (SUBREDDITS E) [] = Inr batch" and ne: "batch \<noteq> []" and
    ins: "insert_query key batch (delete_query w (posts D)) = Inr tbl" and
    D1: "D1 = D\<lparr>posts := tbl\<rparr>" and n: "n = length batch" and bc: "bounds_convert w"
    by (auto simp: fetch_daily_reddit_posts_def Let_def split: sum.splits if_splits)
  from ins have tbl: "tbl = delete_query w (posts D) @ map (insert_row key) batch"
    by (auto simp: insert_query_def Let_def split: if_splits)
  have "\<forall>d \<in> set batch. start_timestamp w \<le> f_created_utc d \<and> f_created_utc d < end_timestamp w"
    using fetch_subreddits_in_window [OF f _ inside] by simp
  then have "\<forall>r \<in> set (map (insert_row key) batch). in_window w r"
    by (simp add: in_window_def insert_row_def)
  then have "delete_query w tbl = delete_query w (posts D)"
    unfolding tbl by (simp add: delete_query_append delete_query_idem delete_query_all_in_window)
  with f ne ins w D1 n bc show ?thesis
    by (simp add: fetch_daily_reddit_posts_def Let_def)
qed

subsection \<open>Weekly aggregation\<close>

lemma week_window_order:
  assumes "week_window tz key = Inr w"
  shows "dt_le (start_date w) (start_date w) \<and> dt_less (start_date w) (end_date w)"
proof -
  from assms obtain d where d: "strptime key = Inr d"
    and sd: "add_days d (- weekday d) = Inr (start_date w)"
    and ed: "add_days d 1 = Inr (end_date w)"
    by (auto simp: week_window_def split: sum.splits)
  have wd: "0 \<le> weekday d" by (simp add: weekday_def)
  from sd have "start_date w = d\<lparr>ordinal := ordinal d - weekday d\<rparr>"
    by (auto simp: add_days_def Let_def split: if_splits)
  then have "ordinal (start_date w) = ordinal d - weekday d"
    by simp
  moreover from ed have "end_date w = d\<lparr>ordinal := ordinal d + 1\<rparr>"
    by (auto simp: add_days_def Let_def split: if_splits)
  then have "ordinal (end_date w) = ordinal d + 1"
    by simp
  ultimately show ?thesis using wd by (simp add: dt_le_def dt_less_def)
qed

lemma number_rows_ids:
  "r \<in> set (number_rows i st gs) \<Longrightarrow> i \<le> w_id r \<and> w_partition_date r = st"
  by (induction i st gs rule: number_rows.induct) auto

lemma number_rows_without_id:
  "map without_id (number_rows i st gs) = map without_id (number_rows j st gs)"
  by (induction i st gs arbitrary: j rule: number_rows.induct) (auto simp: without_id_def)

lemma number_rows_metric_columns:
  "map metric_columns (number_rows i st gs) = gs"
  by (induction i st gs rule: number_rows.induct) (auto simp: metric_columns_def)

lemma number_rows_length: "length (number_rows i st gs) = length gs"
  by (induction i st gs rule: number_rows.induct) auto

lemma number_rows_shift:
  "map w_id (number_rows (i + k) st gs) = map (\<lambda>x. x + k) (map w_id (number_rows i st gs))"
  by (induction i st gs rule: number_rows.induct) (auto simp: add.commute add.left_commute)


lemma number_rows_id_upper:
  "r \<in> set (number_rows i st gs) \<Longrightarrow> w_id r < i + int (length gs)"
  by (induction i st gs rule: number_rows.induct) auto

lemma filter_none: "\<forall>x \<in> set xs. \<not> P x \<Longrightarrow> filter P xs = []"
  by (induction xs) auto

lemma filter_all: "\<forall>x \<in> set xs. P x \<Longrightarrow> filter P xs = xs"
  by (induction xs) auto

lemma number_rows_ids_by_length:
  "length gs = length gs' \<Longrightarrow>
   map w_id (number_rows i st gs) = map w_id (number_rows i st gs')"
proof (induction gs gs' arbitrary: i rule: list_induct2)
  case Nil
  then show ?case by simp
next
  case (Cons g gs g' gs')
  obtain h n s c where g: "g = (h, n, s, c)" by (cases g) auto
  obtain h' n' s' c' where g': "g' = (h', n', s', c')" by (cases g') auto
  from Cons.IH [of "i + 1"] show ?case by (simp add: g g')
qed

lemma number_rows_without_id_map:
  "map without_id (number_rows i st gs) = map (\<lambda>(h, n, s, c). (h, n, s, c, st)) gs"
  by (induction i st gs rule: number_rows.induct) (auto simp: without_id_def)

lemma grouped_length:
  "length (grouped E rank rows) = length (remdups (map humanoid rows))"
  by (simp add: grouped_def)

lemma grouped_mset: "mset (grouped E rank rows) = mset (grouped E rank' rows)"
  by (simp add: grouped_def)

text \<open>A run on a database whose ids lie below the sequence and whose next ids fit.\<close>

lemma aggregate_run:
  assumes w: "week_window (utcoffset E) key = Inr w"
    and conv: "bounds_convert w"
    and inv: "\<forall>r \<in> set (weekly_post_metrics D). w_id r < seq_weekly_id D"
    and lo: "- 2147483648 \<le> seq_weekly_id D"
    and hi: "seq_weekly_id D + int (length (remdups (map humanoid (filter (in_window w) (posts D)))))
               \<le> 2147483648"
  shows "aggregate_posts_by_category_and_week E rank key D =
           (Inr (grouped E rank (filter (in_window w) (posts D))),
            D\<lparr>weekly_post_metrics :=
                 filter (\<lambda>r. \<not> in_week w r) (weekly_post_metrics D) @
                 number_rows (seq_weekly_id D) (start_date w)
                   (grouped E rank (filter (in_window w) (posts D))),
              seq_weekly_id :=
                 seq_weekly_id D +
                 int (length (remdups (map humanoid (filter (in_window w) (posts D)))))\<rparr>)"
proof -
  let ?G = "grouped E rank (filter (in_window w) (posts D))"
  let ?deleted = "filter (\<lambda>r. \<not> in_week w r) (weekly_post_metrics D)"
  let ?new = "number_rows (seq_weekly_id D) (start_date w) ?G"
  have fits: "list_all (\<lambda>r. int32 (w_id r)) ?new"
    unfolding list_all_iff
  proof
    fix r assume r: "r \<in> set ?new"
    from number_rows_ids [OF r] number_rows_id_upper [OF r] lo hi
    show "int32 (w_id r)" by (simp add: int32_def grouped_length)
  qed
  have fresh: "list_all (\<lambda>r. w_id r \<notin> set (map w_id ?deleted)) ?new"
    unfolding list_all_iff
  proof
    fix r assume "r \<in> set ?new"
    then have "seq_weekly_id D \<le> w_id r" by (simp add: number_rows_ids)
    then show "w_id r \<notin> set (map w_id ?deleted)" using inv by fastforce
  qed
  have "\<forall>r \<in> set ?deleted. w_partition_date r \<noteq> start_date w"
    using week_window_order [OF w] by (auto simp: in_week_def)
  then have d0: "filter (\<lambda>r. w_partition_date r = start_date w) ?deleted = []"
    by (intro filter_none) simp
  have n0: "filter (\<lambda>r. w_partition_date r = start_date w) ?new = ?new"
    by (intro filter_all) (simp add: number_rows_ids)
  have data: "map metric_columns (filter (\<lambda>r. w_partition_date r = start_date w) (?deleted @ ?new)) = ?G"
    by (simp only: filter_append d0 n0 append_Nil number_rows_metric_columns)
  show ?thesis
    unfolding aggregate_posts_by_category_and_week_def
    by (simp only: w sum.case Let_def conv fits fresh not_True_eq_False if_True if_False data
          number_rows_length grouped_length; simp)
qed

text \<open>
  Claim C5, amended. For a key whose week window has bounds that fit the INTEGER column,
  on a database whose stored ids lie below the next value of the sequence and whose next
  ids fit the INTEGER column, two successive runs of the aggregator over unchanged posts
  both succeed, whatever order each run's query gives to the groups. The data the two
  runs read back are the same up to that order; the week's rows after the second run are
  those after the first run in every column except the id, up to order; each id has moved
  on by the number of rows. When both runs list the groups in the same order, the data
  and the rows without their ids are the same lists. The rows of other weeks and the
  posts are untouched.
\<close>

theorem weekly_recompute_identical_up_to_id:
  assumes w: "week_window (utcoffset E) key = Inr w"
    and conv: "bounds_convert w"
    and inv: "\<forall>r \<in> set (weekly_post_metrics D). w_id r < seq_weekly_id D"
    and lo: "- 2147483648 \<le> seq_weekly_id D"
    and hi: "seq_weekly_id D +
               2 * int (length (remdups (map humanoid (filter (in_window w) (posts D)))))
               \<le> 2147483648"
  shows "\<exists>data1 data2 D1 D2.
           aggregate_posts_by_category_and_week E rank1 key D = (Inr data1, D1) \<and>
           aggregate_posts_by_category_and_week E rank2 key D1 = (Inr data2, D2) \<and>
           map metric_columns (week_rows w D1) = data1 \<and>
           map metric_columns (week_rows w D2) = data2 \<and>
           mset data2 = mset data1 \<and>
           mset (map without_id (week_rows w D2)) = mset (map without_id (week_rows w D1)) \<and>
           map w_id (week_rows w D2) =
             map (\<lambda>i. i + int (length data1)) (map w_id (week_rows w D1)) \<and>
           (rank2 = rank1 \<longrightarrow>
              data2 = data1 \<and>
              map without_id (week_rows w D2) = map without_id (week_rows w D1)) \<and>
           filter (\<lambda>r. \<not> in_week w r) (weekly_post_metrics D2) =
             filter (\<lambda>r. \<not> in_week w r) (weekly_post_metrics D1) \<and>
           posts D2 = posts D"
proof -
  define rows where "rows = filter (in_window w) (posts D)"
  define n where "n = int (length (remdups (map humanoid rows)))"
  define G1 where "G1 = grouped E rank1 rows"
  define G2 where "G2 = grouped E rank2 rows"
  define deleted where "deleted = filter (\<lambda>r. \<not> in_week w r) (weekly_post_metrics D)"
  define s where "s = seq_weekly_id D"
  define D1 where "D1 = D\<lparr>weekly_post_metrics := deleted @ number_rows s (start_date w) G1,
                           seq_weekly_id := s + n\<rparr>"
  define D2 where "D2 = D1\<lparr>weekly_post_metrics :=
                              deleted @ number_rows (s + n) (start_date w) G2,
                            seq_weekly_id := s + n + n\<rparr>"
  have len: "int (length G1) = n" "int (length G2) = n"
    by (simp_all add: G1_def G2_def n_def grouped_length)
  have n0: "0 \<le> n" by (simp add: n_def)
  have run1: "aggregate_posts_by_category_and_week E rank1 key D = (Inr G1, D1)"
    using aggregate_run [OF w conv inv lo, of rank1] hi n0
    by (simp add: G1_def deleted_def s_def D1_def rows_def n_def)
  have new_in_week: "\<forall>r \<in> set (number_rows i (start_date w) G). in_week w r" for i G
    using week_window_order [OF w] by (auto simp: in_week_def dest: number_rows_ids)
  have del_not_in_week: "\<forall>r \<in> set deleted. \<not> in_week w r"
    by (simp add: deleted_def)
  have keep: "filter (\<lambda>r. \<not> in_week w r) (deleted @ number_rows i (start_date w) G) = deleted"
    for i G
    using new_in_week [of i G] del_not_in_week by (simp add: filter_none filter_all)
  have inv1: "\<forall>r \<in> set (weekly_post_metrics D1). w_id r < seq_weekly_id D1"
  proof
    fix r assume "r \<in> set (weekly_post_metrics D1)"
    then consider "r \<in> set deleted" | "r \<in> set (number_rows s (start_date w) G1)"
      by (auto simp: D1_def)
    then show "w_id r < seq_weekly_id D1"
    proof cases
      case 1
      then have "w_id r < s" using inv by (auto simp: deleted_def s_def)
      then show ?thesis using n0 by (simp add: D1_def)
    next
      case 2
      from number_rows_id_upper [OF this] len show ?thesis by (simp add: D1_def)
    qed
  qed
  have p1: "posts D1 = posts D" by (simp add: D1_def)
  have lo1: "- 2147483648 \<le> seq_weekly_id D1"
    using lo n0 by (simp add: D1_def s_def)
  have hi1: "seq_weekly_id D1 +
               int (length (remdups (map humanoid (filter (in_window w) (posts D1))))) \<le> 2147483648"
    using hi by (simp add: D1_def s_def p1 n_def rows_def)
  have run2: "aggregate_posts_by_category_and_week E rank2 key D1 = (Inr G2, D2)"
    using aggregate_run [OF w conv inv1 lo1 hi1, of rank2] keep [of s G1]
    by (simp add: D1_def D2_def G2_def rows_def n_def)
  have del_week: "filter (\<lambda>r. w_partition_date r = start_date w) deleted = []"
    using week_window_order [OF w] by (intro filter_none) (auto simp: deleted_def in_week_def)
  have new_week: "filter (\<lambda>r. w_partition_date r = start_date w) (number_rows i (start_date w) G) =
                  number_rows i (start_date w) G" for i G
    by (intro filter_all) (simp add: number_rows_ids)
  have wr1: "week_rows w D1 = number_rows s (start_date w) G1"
    by (simp add: week_rows_def D1_def del_week new_week)
  have wr2: "week_rows w D2 = number_rows (s + n) (start_date w) G2"
    by (simp add: week_rows_def D2_def D1_def del_week new_week)
  have a1: "map metric_columns (week_rows w D1) = G1"
    by (simp add: wr1 number_rows_metric_columns)
  have a2: "map metric_columns (week_rows w D2) = G2"
    by (simp add: wr2 number_rows_metric_columns)
  have m: "mset G2 = mset G1"
    unfolding G1_def G2_def by (rule grouped_mset)
  have b: "mset (map without_id (week_rows w D2)) = mset (map without_id (week_rows w D1))"
    unfolding wr1 wr2 number_rows_without_id_map by (simp add: m)
  have "map w_id (number_rows (s + n) (start_date w) G2) =
        map w_id (number_rows (s + n) (start_date w) G1)"
    by (rule number_rows_ids_by_length) (use len in simp)
  then have c: "map w_id (week_rows w D2) =
                map (\<lambda>i. i + int (length G1)) (map w_id (week_rows w D1))"
    unfolding wr1 wr2 len by (simp only: number_rows_shift)
  have same: "rank2 = rank1 \<longrightarrow>
                G2 = G1 \<and> map without_id (week_rows w D2) = map without_id (week_rows w D1)"
  proof
    assume "rank2 = rank1"
    then have g: "G2 = G1" by (simp add: G1_def G2_def)
    have "map without_id (week_rows w D2) = map without_id (week_rows w D1)"
      unfolding wr1 wr2 g by (rule number_rows_without_id)
    with g show "G2 = G1 \<and> map without_id (week_rows w D2) = map without_id (week_rows w D1)"
      by simp
  qed
  have d: "filter (\<lambda>r. \<not> in_week w r) (weekly_post_metrics D2) =
           filter (\<lambda>r. \<not> in_week w r) (weekly_post_metrics D1)"
  proof -
    have "weekly_post_metrics D2 = deleted @ number_rows (s + n) (start_date w) G2"
      by (simp add: D2_def D1_def)
    moreover have "weekly_post_metrics D1 = deleted @ number_rows s (start_date w) G1"
      by (simp add: D1_def)
    ultimately show ?thesis by (simp only: keep)
  qed
  have e: "posts D2 = posts D"
    by (simp add: D2_def D1_def)
  from run1 run2 a1 a2 m b c same d e show ?thesis by blast
qed

theorem weekly_recompute_identical_up_to_id_witness:
  "week_window (utcoffset example_env) ''2024-05-06'' =
     Inr \<lparr>start_date = \<lparr>ordinal = 739012, second_of_day = 0\<rparr>,
          end_date = \<lparr>ordinal = 739013, second_of_day = 0\<rparr>,
          start_timestamp = 1714953600, end_timestamp = 1715040000\<rparr> \<and>
   bounds_convert
     \<lparr>start_date = \<lparr>ordinal = 739012, second_of_day = 0\<rparr>,
      end_date = \<lparr>ordinal = 739013, second_of_day = 0\<rparr>,
      start_timestamp = 1714953600, end_timestamp = 1715040000\<rparr> \<and>
   weekly_post_metrics labelled_db = [] \<and>
   seq_weekly_id labelled_db = 1 \<and>
   (\<exists>data1 data2 D1 D2.
      aggregate_posts_by_category_and_week example_env example_rank ''2024-05-06'' labelled_db =
        (Inr data1, D1) \<and>
      aggregate_posts_by_category_and_week example_env example_rank ''2024-05-06'' D1 =
        (Inr data2, D2) \<and>
      data2 = data1 \<and>
      map without_id (week_rows
        \<lparr>start_date = \<lparr>ordinal = 739012, second_of_day = 0\<rparr>,
         end_date = \<lparr>ordinal = 739013, second_of_day = 0\<rparr>,
         start_timestamp = 1714953600, end_timestamp = 1715040000\<rparr> D2) =
      map without_id (week_rows
        \<lparr>start_date = \<lparr>ordinal = 739012, second_of_day = 0\<rparr>,
         end_date = \<lparr>ordinal = 739013, second_of_day = 0\<rparr>,
         start_timestamp = 1714953600, end_timestamp = 1715040000\<rparr> D1) \<and>
      posts D2 = posts labelled_db)"
proof -
  let ?w = "\<lparr>start_date = \<lparr>ordinal = 739012, second_of_day = 0\<rparr>,
          end_date = \<lparr>ordinal = 739013, second_of_day = 0\<rparr>,
          start_timestamp = 1714953600, end_timestamp = 1715040000\<rparr>"
  have h1: "week_window (utcoffset example_env) ''2024-05-06'' = Inr ?w"
    by code_simp
  have h2: "bounds_convert ?w"
    by (simp add: bounds_convert_def int32_def)
  have h3: "\<forall>r \<in> set (weekly_post_metrics labelled_db). w_id r < seq_weekly_id labelled_db"
    by (simp add: labelled_db_def)
  have h4: "- 2147483648 \<le> seq_weekly_id labelled_db"
    by (simp add: labelled_db_def)
  have h5: "seq_weekly_id labelled_db +
              2 * int (length (remdups (map humanoid (filter (in_window ?w) (posts labelled_db)))))
              \<le> 2147483648"
    by code_simp
  have e: "weekly_post_metrics labelled_db = []" "seq_weekly_id labelled_db = 1"
    by (simp_all add: labelled_db_def)
  from weekly_recompute_identical_up_to_id [OF h1 h2 h3 h4 h5, of example_rank example_rank]
    h1 h2 e show ?thesis
    by blast
qed

text \<open>
  Claim C5, as stated, makes the rows of the two runs identical. With two posts labelled
  \<open>figure\<close> on Monday 2024-05-06 the first run stores the week's row under id 1, the
  second run deletes it and stores it again under id 2, the next value of the sequence.
\<close>

theorem weekly_rows_counterexample:
  "weekly_post_metrics
     (snd (aggregate_posts_by_category_and_week example_env example_rank ''2024-05-06''
        labelled_db)) =
     [\<lparr>w_id = 1, w_humanoid = Some ''figure'', w_n_posts = 2, w_avg_score = 7 / 2,
       w_avg_comments = 7 / 2, w_partition_date = \<lparr>ordinal = 739012, second_of_day = 0\<rparr>\<rparr>] \<and>
   weekly_post_metrics
     (snd (aggregate_posts_by_category_and_week example_env example_rank ''2024-05-06''
        (snd (aggregate_posts_by_category_and_week example_env example_rank ''2024-05-06''
           labelled_db)))) =
     [\<lparr>w_id = 2, w_humanoid = Some ''figure'', w_n_posts = 2, w_avg_score = 7 / 2,
       w_avg_comments = 7 / 2, w_partition_date = \<lparr>ordinal = 739012, second_of_day = 0\<rparr>\<rparr>] \<and>
   weekly_post_metrics
     (snd (aggregate_posts_by_category_and_week example_env example_rank ''2024-05-06''
        labelled_db)) \<noteq>
   weekly_post_metrics
     (snd (aggregate_posts_by_category_and_week example_env example_rank ''2024-05-06''
        (snd (aggregate_posts_by_category_and_week example_env example_rank ''2024-05-06''
           labelled_db))))"
  by code_simp

subsection \<open>Robot posts\<close>

lemma apply_labels_rel:
  "apply_labels rs = Inr rs' \<Longrightarrow>
   list_all2 (\<lambda>r u. \<exists>l. get_post_labels (title r) = Inr l \<and> u = r\<lparr>humanoid := Some l\<rparr>) rs rs'"
proof (induction rs arbitrary: rs')
  case Nil
  then show ?case by simp
next
  case (Cons r rs)
  from Cons.prems obtain l rs0 where
    l: "get_post_labels (title r) = Inr l" and rs0: "apply_labels rs = Inr rs0"
    and eq: "rs' = r\<lparr>humanoid := Some l\<rparr> # rs0"
    by (auto split: sum.splits)
  from Cons.IH [OF rs0] l eq show ?case by simp
qed

lemma apply_labels_ids: "apply_labels rs = Inr rs' \<Longrightarrow> map post_id rs' = map post_id rs"
  by (induction rs arbitrary: rs') (auto split: sum.splits)

lemma list_all2_right_member:
  "list_all2 P xs ys \<Longrightarrow> y \<in> set ys \<Longrightarrow> \<exists>x \<in> set xs. P x y"
  by (induction xs ys rule: list_all2_induct) auto

text \<open>
  After the classification stage, every row of the partition carries the label that
  \<open>get_post_labels\<close> gives to its title.
\<close>

lemma classify_stores_label:
  assumes run: "classify_daily_reddit_posts E key D = (Inr n, D')"
    and w: "daily_window (utcoffset E) key = Inr w"
    and dist: "distinct (map post_id (posts D))"
  shows "\<forall>r' \<in> set (posts D'). in_window w r' \<longrightarrow>
           (\<exists>l. get_post_labels (title r') = Inr l \<and> humanoid r' = Some l)"
proof -
  let ?df0 = "filter (in_window w) (posts D)"
  from run w obtain df where df: "apply_labels ?df0 = Inr df"
    and D': "posts D' = update_query df (posts D)"
    by (auto simp: classify_daily_reddit_posts_def split: sum.splits if_splits)
  let ?pairs = "map (\<lambda>u. (post_id u, humanoid u)) df"
  note rel = apply_labels_rel [OF df]
  have keys: "map fst ?pairs = map post_id ?df0"
    using apply_labels_ids [OF df] by (simp add: comp_def)
  have dk: "distinct (map fst ?pairs)"
    unfolding keys using dist by (simp add: distinct_map_filter)
  have look: "map_of ?pairs (post_id r) = Some h \<Longrightarrow> r \<in> set (posts D) \<Longrightarrow>
              \<exists>l. get_post_labels (title r) = Inr l \<and> h = Some l" for r h
  proof -
    assume m: "map_of ?pairs (post_id r) = Some h" and r: "r \<in> set (posts D)"
    from map_of_SomeD [OF m] obtain u where u: "u \<in> set df" "post_id u = post_id r" "humanoid u = h"
      by auto
    from list_all2_right_member [OF rel u(1)] obtain r0 where r0: "r0 \<in> set ?df0"
      and ex: "\<exists>l. get_post_labels (title r0) = Inr l \<and> u = r0\<lparr>humanoid := Some l\<rparr>"
      by (rule bexE)
    from ex obtain l where
      l: "get_post_labels (title r0) = Inr l" and ur: "u = r0\<lparr>humanoid := Some l\<rparr>"
      by (elim exE conjE)
    from r0 have "r0 \<in> set (posts D)" by simp
    moreover have "post_id r0 = post_id r" using ur u(2) by simp
    ultimately have "r0 = r" using dist r by (meson distinct_map inj_onD)
    with l ur u(3) show ?thesis by auto
  qed
  have miss: "map_of ?pairs (post_id r) = None \<Longrightarrow> r \<in> set (posts D) \<Longrightarrow> \<not> in_window w r" for r
  proof
    assume m: "map_of ?pairs (post_id r) = None" and r: "r \<in> set (posts D)" and i: "in_window w r"
    from r i have "post_id r \<in> set (map post_id ?df0)" by auto
    then have "post_id r \<in> fst ` set ?pairs" using keys by (metis set_map)
    with m show False by (simp add: map_of_eq_None_iff)
  qed
  show ?thesis
  proof (intro ballI impI)
    fix r' assume r': "r' \<in> set (posts D')" and i: "in_window w r'"
    from r' obtain r where r: "r \<in> set (posts D)" and
      eq: "r' = (case map_of ?pairs (post_id r) of None \<Rightarrow> r | Some h \<Rightarrow> r\<lparr>humanoid := h\<rparr>)"
      unfolding D' update_query_def by auto
    show "\<exists>l. get_post_labels (title r') = Inr l \<and> humanoid r' = Some l"
    proof (cases "map_of ?pairs (post_id r)")
      case None
      with eq have "r' = r" by simp
      with miss [OF None r] i show ?thesis by simp
    next
      case (Some h)
      from look [OF Some r] obtain l where "get_post_labels (title r) = Inr l" "h = Some l"
        by blast
      with eq Some show ?thesis by simp
    qed
  qed
qed

lemma compound_label_not_robot:
  assumes "1 < length (matched_brands (lower ttl))" and "get_post_labels ttl = Inr l"
  shows "\<not> is_robot_label (Some l)"
proof -
  let ?ms = "matched_brands (lower ttl)"
  from assms(1) obtain x y ys where ms: "?ms = x # y # ys"
    by (cases ?ms; cases "tl ?ms") auto
  from assms have "l = join ''-'' ?ms"
    by (simp add: get_post_labels_matched Let_def split: if_splits)
  with ms have "CHR ''-'' \<in> set l" by simp
  then show ?thesis by (auto simp: is_robot_label_def)
qed

lemma is_robot_label_iff:
  "is_robot_label h \<longleftrightarrow> h \<in> {Some ''optimus'', Some ''figure'', Some ''neo''}"
  by (cases h) (auto simp: is_robot_label_def)

text \<open>
  Claim C9. A run of \<^verbatim>\<open>select_robot_posts\<close> keeps some of the old rows of
  \<^verbatim>\<open>robot_posts\<close> and appends rows of \<^verbatim>\<open>posts\<close>; every appended row carries one of
  the labels \<open>optimus\<close>, \<open>figure\<close>, \<open>neo\<close>, and no post whose stored label is the label
  of its title with more than one matching brand rule is appended. Whatever the window,
  the rows selected for summarization carry one of the three labels too, never the label
  of a title that matches more than one brand rule.
\<close>

theorem compound_labels_excluded:
  assumes "select_robot_posts key D = (Inr n, D')"
  shows "\<exists>kept inserted.
           robot_posts D' = kept @ inserted \<and> n = length inserted \<and>
           set kept \<subseteq> set (robot_posts D) \<and> set inserted \<subseteq> set (posts D) \<and>
           (\<forall>r \<in> set inserted.
              humanoid r \<in> {Some ''optimus'', Some ''figure'', Some ''neo''}) \<and>
           (\<forall>r \<in> set (posts D). \<forall>l.
              1 < length (matched_brands (lower (title r))) \<and>
              get_post_labels (title r) = Inr l \<and> humanoid r = Some l \<longrightarrow>
              r \<notin> set inserted) \<and>
           (\<forall>w. \<forall>r \<in> set (select_partition_robot_posts w D').
              humanoid r \<in> {Some ''optimus'', Some ''figure'', Some ''neo''} \<and>
              (\<forall>l. 1 < length (matched_brands (lower (title r))) \<and>
                    get_post_labels (title r) = Inr l \<longrightarrow> humanoid r \<noteq> Some l))"
proof -
  from assms obtain sd ed where
    D': "D' = D\<lparr>robot_posts :=
              filter (\<lambda>r. \<not> in_local_window sd ed r) (robot_posts D) @
              filter (\<lambda>r. is_robot_label (humanoid r) \<and> in_local_window sd ed r) (posts D)\<rparr>"
    and n: "n = length (filter (\<lambda>r. is_robot_label (humanoid r) \<and> in_local_window sd ed r) (posts D))"
    by (auto simp: select_robot_posts_def Let_def split: sum.splits)
  let ?kept = "filter (\<lambda>r. \<not> in_local_window sd ed r) (robot_posts D)"
  let ?ins = "filter (\<lambda>r. is_robot_label (humanoid r) \<and> in_local_window sd ed r) (posts D)"
  have 1: "robot_posts D' = ?kept @ ?ins" by (simp add: D')
  have 2: "set ?kept \<subseteq> set (robot_posts D)" "set ?ins \<subseteq> set (posts D)" by auto
  have 3: "\<forall>r \<in> set ?ins. humanoid r \<in> {Some ''optimus'', Some ''figure'', Some ''neo''}"
    by (simp add: is_robot_label_iff)
  have 4: "\<forall>r \<in> set (posts D). \<forall>l.
              1 < length (matched_brands (lower (title r))) \<and>
              get_post_labels (title r) = Inr l \<and> humanoid r = Some l \<longrightarrow> r \<notin> set ?ins"
    using compound_label_not_robot by auto
  have 5: "\<forall>w. \<forall>r \<in> set (select_partition_robot_posts w D').
              humanoid r \<in> {Some ''optimus'', Some ''figure'', Some ''neo''} \<and>
              (\<forall>l. 1 < length (matched_brands (lower (title r))) \<and>
                    get_post_labels (title r) = Inr l \<longrightarrow> humanoid r \<noteq> Some l)"
  proof (intro allI ballI conjI)
    fix w r assume r: "r \<in> set (select_partition_robot_posts w D')"
    then have rl: "is_robot_label (humanoid r)"
      by (simp add: select_partition_robot_posts_def)
    then show "humanoid r \<in> {Some ''optimus'', Some ''figure'', Some ''neo''}"
      by (simp only: is_robot_label_iff)
    fix l
    show "1 < length (matched_brands (lower (title r))) \<and>
          get_post_labels (title r) = Inr l \<longrightarrow> humanoid r \<noteq> Some l"
      using compound_label_not_robot [of "title r" l] rl by auto
  qed
  from 1 n 2 3 4 5 show ?thesis by blast
qed

theorem compound_labels_excluded_witness:
  "select_robot_posts ''2024-05-06'' compound_db =
     (Inr 1, compound_db\<lparr>robot_posts := [figure_row]\<rparr>) \<and>
   1 < length (matched_brands (lower (title compound_row))) \<and>
   get_post_labels (title compound_row) = Inr ''optimus-neo'' \<and>
   (\<exists>kept inserted.
      robot_posts (compound_db\<lparr>robot_posts := [figure_row]\<rparr>) = kept @ inserted \<and>
      compound_row \<notin> set inserted \<and>
      (\<forall>r \<in> set inserted. humanoid r \<in> {Some ''optimus'', Some ''figure'', Some ''neo''}))"
proof -
  have h: "select_robot_posts ''2024-05-06'' compound_db =
             (Inr 1, compound_db\<lparr>robot_posts := [figure_row]\<rparr>)"
    by code_simp
  have m: "1 < length (matched_brands (lower (title compound_row)))"
    by code_simp
  have g: "get_post_labels (title compound_row) = Inr ''optimus-neo''"
    by code_simp
  have p: "compound_row \<in> set (posts compound_db)" "humanoid compound_row = Some ''optimus-neo''"
    by (simp_all add: compound_db_def compound_row_def)
  from compound_labels_excluded [OF h] obtain kept inserted where
    a: "robot_posts (compound_db\<lparr>robot_posts := [figure_row]\<rparr>) = kept @ inserted" and
    b: "\<forall>r \<in> set inserted. humanoid r \<in> {Some ''optimus'', Some ''figure'', Some ''neo''}" and
    c: "\<forall>r \<in> set (posts compound_db). \<forall>l.
              1 < length (matched_brands (lower (title r))) \<and>
              get_post_labels (title r) = Inr l \<and> humanoid r = Some l \<longrightarrow>
              r \<notin> set inserted"
    by blast
  from c p m g have "compound_row \<notin> set inserted" by blast
  with a b h m g show ?thesis by blast
qed

subsection \<open>Change-detection sensor\<close>

lemma changed_case:
  "(case map_of p (filename e) of None \<Rightarrow> True | Some recorded \<Rightarrow> recorded \<noteq> getmtime e) =
   changed p e"
  by (auto simp: changed_def split: option.splits)

lemma sensor_loop_Cons:
  "sensor_loop str p (e # es) cs rs =
     (if is_summary_file e then
        (if changed p e then
           (case json_load e of
              None \<Rightarrow> Inl JSONDecodeError
            | Some j \<Rightarrow>
                sensor_loop str p es (dict_set cs (filename e) (getmtime e))
                  (rs @ [\<lparr>run_key = make_run_key str (filename e) (getmtime e),
                          config_filename = filename e, config_summaries = j\<rparr>]))
         else sensor_loop str p es (dict_set cs (filename e) (getmtime e)) rs)
      else sensor_loop str p es cs rs)"
  by (simp add: is_summary_file_def changed_case Let_def)

text \<open>What an evaluation returns, when it returns.\<close>

lemma sensor_loop_Inr:
  "sensor_loop str p es cs rs = Inr (runs, c) \<Longrightarrow>
   runs = rs @ map (request_for str) (filter (\<lambda>e. is_summary_file e \<and> changed p e) es) \<and>
   c = foldl (\<lambda>c e. dict_set c (filename e) (getmtime e)) cs (filter is_summary_file es)"
proof (induction es arbitrary: cs rs)
  case Nil
  then show ?case by simp
next
  case (Cons e es)
  show ?case
  proof (cases "is_summary_file e")
    case False
    with Cons.prems have "sensor_loop str p es cs rs = Inr (runs, c)"
      by (simp only: sensor_loop_Cons if_False)
    from Cons.IH [OF this] False show ?thesis by simp
  next
    case True
    note s = this
    show ?thesis
    proof (cases "changed p e")
      case False
      with s Cons.prems have
        "sensor_loop str p es (dict_set cs (filename e) (getmtime e)) rs = Inr (runs, c)"
        by (simp only: sensor_loop_Cons if_True if_False)
      from Cons.IH [OF this] False s show ?thesis by simp
    next
      case True
      with s Cons.prems obtain j where j: "json_load e = Some j" and
        "sensor_loop str p es (dict_set cs (filename e) (getmtime e))
           (rs @ [\<lparr>run_key = make_run_key str (filename e) (getmtime e),
                   config_filename = filename e, config_summaries = j\<rparr>]) = Inr (runs, c)"
        by (auto simp only: sensor_loop_Cons if_True split: option.splits)
      from Cons.IH [OF this(2)] True s j show ?thesis by (simp add: request_for_def)
    qed
  qed
qed

text \<open>An evaluation returns when every changed summary file decodes.\<close>

lemma sensor_loop_returns:
  "\<forall>e \<in> set es. is_summary_file e \<and> changed p e \<longrightarrow> json_load e \<noteq> None \<Longrightarrow>
   \<exists>runs c. sensor_loop str p es cs rs = Inr (runs, c)"
proof (induction es arbitrary: cs rs)
  case Nil
  then show ?case by simp
next
  case (Cons e es)
  then have ih: "\<exists>runs c. sensor_loop str p es cs' rs' = Inr (runs, c)" for cs' rs'
    by simp
  show ?case
  proof (cases "is_summary_file e \<and> changed p e")
    case True
    with Cons.prems obtain j where "json_load e = Some j" by auto
    with True ih show ?thesis
      by (simp only: sensor_loop_Cons if_True option.case)
  next
    case False
    with ih show ?thesis
      by (simp only: sensor_loop_Cons split: if_splits) blast
  qed
qed

lemma dict_set_fresh: "k \<notin> fst ` set d \<Longrightarrow> dict_set d k v = d @ [(k, v)]"
  by (induction d k v rule: dict_set.induct) auto

lemma foldl_dict_set_distinct:
  "distinct (map filename es) \<Longrightarrow> \<forall>e \<in> set es. filename e \<notin> fst ` set cs \<Longrightarrow>
   foldl (\<lambda>c e. dict_set c (filename e) (getmtime e)) cs es =
   cs @ map (\<lambda>e. (filename e, getmtime e)) es"
proof (induction es arbitrary: cs)
  case Nil
  then show ?case by simp
next
  case (Cons e es)
  have f: "dict_set cs (filename e) (getmtime e) = cs @ [(filename e, getmtime e)]"
    using Cons.prems(2) by (simp add: dict_set_fresh)
  have "\<forall>x \<in> set es. filename x \<notin> fst ` set (cs @ [(filename e, getmtime e)])"
    using Cons.prems by (auto simp: image_iff)
  with Cons.IH [of "cs @ [(filename e, getmtime e)]"] Cons.prems(1) f show ?case
    by simp
qed

lemma sensor_Inr:
  assumes "generate_pdf_reports_sensor str cursor listing = Inr (runs, c)"
    and "distinct (map filename listing)"
  shows "runs = map (request_for str)
                  (filter (\<lambda>e. is_summary_file e \<and>
                                changed (case cursor of None \<Rightarrow> [] | Some c \<Rightarrow> c) e) listing) \<and>
         c = observed listing"
proof -
  have "distinct (map filename (filter is_summary_file listing))"
    using assms(2) by (simp add: distinct_map_filter)
  from foldl_dict_set_distinct [OF this, of "[]"]
  have "foldl (\<lambda>c e. dict_set c (filename e) (getmtime e)) [] (filter is_summary_file listing) =
        observed listing"
    by (simp add: observed_def)
  with sensor_loop_Inr [of str _ listing "[]" "[]" runs c] assms(1) show ?thesis
    by (simp add: generate_pdf_reports_sensor_def)
qed

lemma count_same_name:
  "distinct (map filename es) \<Longrightarrow> e \<in> set es \<Longrightarrow>
   length (filter (\<lambda>x. P x \<and> filename x = filename e) es) = (if P e then 1 else 0)"
proof (induction es)
  case Nil
  then show ?case by simp
next
  case (Cons x es)
  show ?case
  proof (cases "x = e")
    case True
    have "\<forall>y \<in> set es. filename y \<noteq> filename e"
      using Cons.prems(1) True by (auto simp: image_iff)
    then have "filter (\<lambda>x. P x \<and> filename x = filename e) es = []"
      by (simp add: filter_empty_conv)
    with True show ?thesis by simp
  next
    case False
    with Cons.prems have e: "e \<in> set es" and d: "distinct (map filename es)"
      and ne: "filename x \<noteq> filename e"
      by (auto simp: image_iff)
    from Cons.IH [OF d e] ne show ?thesis by simp
  qed
qed

lemma count_by_filename:
  "distinct (map filename es) \<Longrightarrow> e \<in> set es \<Longrightarrow>
   length (filter (\<lambda>r. config_filename r = filename e) (map (request_for str) (filter P es))) =
   (if P e then 1 else 0)"
  using count_same_name [of es e P] by (simp add: filter_map comp_def request_for_def)


lemma split_at_separator:
  assumes "xs @ c # ys = xs' @ c # ys'" and "c \<notin> set xs" and "c \<notin> set xs'"
  shows "xs = xs' \<and> ys = ys'"
proof -
  have t: "c \<notin> set zs \<Longrightarrow> takeWhile (\<lambda>x. x \<noteq> c) (zs @ c # ws) = zs" for zs ws
    by (induction zs) auto
  have "takeWhile (\<lambda>x. x \<noteq> c) (xs @ c # ys) = xs"
    using assms(2) by (rule t)
  moreover have "takeWhile (\<lambda>x. x \<noteq> c) (xs' @ c # ys') = xs'"
    using assms(3) by (rule t)
  ultimately have "xs = xs'" using assms(1) by simp
  with assms(1) show ?thesis by simp
qed

lemma make_run_key_inj:
  assumes "make_run_key str f1 m1 = make_run_key str f2 m2"
    and "CHR ''_'' \<notin> set (str m1)" and "CHR ''_'' \<notin> set (str m2)"
  shows "f1 = f2 \<and> str m1 = str m2"
proof -
  from assms(1) have "f1 @ CHR ''_'' # str m1 = f2 @ CHR ''_'' # str m2"
    by (simp add: make_run_key_def)
  then have "rev (str m1) @ CHR ''_'' # rev f1 = rev (str m2) @ CHR ''_'' # rev f2"
    by (metis rev_append rev.simps(2) append_Cons append_Nil append_assoc)
  from split_at_separator [OF this] assms(2,3) show ?thesis by simp
qed

lemma map_of_observed:
  "distinct (map filename l) \<Longrightarrow> e \<in> set l \<Longrightarrow> is_summary_file e \<Longrightarrow>
   map_of (observed l) (filename e) = Some (getmtime e)"
proof -
  assume d: "distinct (map filename l)" and e: "e \<in> set l" and s: "is_summary_file e"
  have "distinct (map fst (observed l))"
    using d by (simp add: observed_def comp_def distinct_map_filter)
  moreover have "(filename e, getmtime e) \<in> set (observed l)"
    using e s by (auto simp: observed_def)
  ultimately show ?thesis by (rule map_of_is_SomeI)
qed

text \<open>An evaluation raises when a changed summary file does not decode.\<close>

lemma sensor_loop_raises:
  "\<exists>e \<in> set es. is_summary_file e \<and> changed p e \<and> json_load e = None \<Longrightarrow>
   sensor_loop str p es cs rs = Inl JSONDecodeError"
proof (induction es arbitrary: cs rs)
  case Nil
  then show ?case by simp
next
  case (Cons e es)
  show ?case
  proof (cases "is_summary_file e \<and> changed p e")
    case True
    show ?thesis
    proof (cases "json_load e")
      case None
      with True show ?thesis by (simp only: sensor_loop_Cons if_True option.case)
    next
      case (Some j)
      with Cons.prems have "\<exists>x \<in> set es. is_summary_file x \<and> changed p x \<and> json_load x = None"
        by auto
      from Cons.IH [OF this] True Some show ?thesis
        by (simp only: sensor_loop_Cons if_True option.case)
    qed
  next
    case False
    with Cons.prems have "\<exists>x \<in> set es. is_summary_file x \<and> changed p x \<and> json_load x = None"
      by auto
    from Cons.IH [OF this] False show ?thesis
      by (simp only: sensor_loop_Cons split: if_splits) blast
  qed
qed

text \<open>
  Claim C7, amended. For a listing without repeated names: when every new or changed
  summary file decodes, the evaluation returns, a listed summary file has exactly one run
  request when its name is absent from the previous cursor or recorded there with another
  modification time and none otherwise, every run request belongs to such a file, and the
  new cursor is exactly the observed mapping of the listed summary files, so names that
  are no longer listed are dropped; when a new or changed summary file does not decode,
  the evaluation raises: it requests no run and returns no cursor.
\<close>

theorem sensor_evaluation_spec:
  assumes "distinct (map filename listing)"
  shows "if \<forall>e \<in> set listing.
              is_summary_file e \<and> changed (case cursor of None \<Rightarrow> [] | Some c \<Rightarrow> c) e \<longrightarrow>
              json_load e \<noteq> None
         then
           \<exists>runs.
             generate_pdf_reports_sensor str cursor listing = Inr (runs, observed listing) \<and>
             (\<forall>e \<in> set listing. is_summary_file e \<longrightarrow>
                length (filter (\<lambda>r. config_filename r = filename e) runs) =
                (if changed (case cursor of None \<Rightarrow> [] | Some c \<Rightarrow> c) e then 1 else 0)) \<and>
             (\<forall>r \<in> set runs. \<exists>e \<in> set listing.
                is_summary_file e \<and> changed (case cursor of None \<Rightarrow> [] | Some c \<Rightarrow> c) e \<and>
                r = request_for str e)
         else generate_pdf_reports_sensor str cursor listing = Inl JSONDecodeError"
proof (cases "\<forall>e \<in> set listing.
              is_summary_file e \<and> changed (case cursor of None \<Rightarrow> [] | Some c \<Rightarrow> c) e \<longrightarrow>
              json_load e \<noteq> None")
  case False
  then have "\<exists>e \<in> set listing.
               is_summary_file e \<and> changed (case cursor of None \<Rightarrow> [] | Some c \<Rightarrow> c) e \<and>
               json_load e = None"
    by auto
  from sensor_loop_raises [OF this, of str "[]" "[]"]
  have "generate_pdf_reports_sensor str cursor listing = Inl JSONDecodeError"
    by (simp add: generate_pdf_reports_sensor_def)
  with False show ?thesis by (simp only: if_False)
next
  case True
  let ?p = "case cursor of None \<Rightarrow> [] | Some c \<Rightarrow> c"
  from sensor_loop_returns [OF True, of str "[]" "[]"] obtain runs c where
    run: "generate_pdf_reports_sensor str cursor listing = Inr (runs, c)"
    by (auto simp: generate_pdf_reports_sensor_def)
  from sensor_Inr [OF run assms(1)] have
    runs: "runs = map (request_for str) (filter (\<lambda>e. is_summary_file e \<and> changed ?p e) listing)"
    and c: "c = observed listing"
    by simp_all
  have cnt: "\<forall>e \<in> set listing. is_summary_file e \<longrightarrow>
              length (filter (\<lambda>r. config_filename r = filename e) runs) =
              (if changed ?p e then 1 else 0)"
  proof (intro ballI impI)
    fix e assume e: "e \<in> set listing" and s: "is_summary_file e"
    from count_by_filename [OF assms(1) e, of str "\<lambda>e. is_summary_file e \<and> changed ?p e"] s
    show "length (filter (\<lambda>r. config_filename r = filename e) runs) =
          (if changed ?p e then 1 else 0)"
      unfolding runs by simp
  qed
  have src: "\<forall>r \<in> set runs. \<exists>e \<in> set listing.
              is_summary_file e \<and> changed ?p e \<and> r = request_for str e"
    unfolding runs by auto
  from run c cnt src have
    "\<exists>runs.
       generate_pdf_reports_sensor str cursor listing = Inr (runs, observed listing) \<and>
       (\<forall>e \<in> set listing. is_summary_file e \<longrightarrow>
          length (filter (\<lambda>r. config_filename r = filename e) runs) =
          (if changed ?p e then 1 else 0)) \<and>
       (\<forall>r \<in> set runs. \<exists>e \<in> set listing.
          is_summary_file e \<and> changed ?p e \<and> r = request_for str e)"
    by blast
  with True show ?thesis by argo
qed

theorem sensor_evaluation_spec_witness:
  "distinct (map filename [report_at 1715000500]) \<and>
   is_summary_file (report_at 1715000500) \<and>
   changed [(''report_2024-05-06.json'', 1715000000)] (report_at 1715000500) \<and>
   \<not> changed [(''report_2024-05-06.json'', 1715000500)] (report_at 1715000500) \<and>
   json_load (report_at 1715000500) \<noteq> None \<and>
   (\<exists>runs.
      generate_pdf_reports_sensor str_seconds (Some [(''report_2024-05-06.json'', 1715000000)])
        [report_at 1715000500] = Inr (runs, [(''report_2024-05-06.json'', 1715000500)]) \<and>
      length (filter (\<lambda>r. config_filename r = ''report_2024-05-06.json'') runs) = 1) \<and>
   (\<exists>runs.
      generate_pdf_reports_sensor str_seconds (Some [(''report_2024-05-06.json'', 1715000500)])
        [report_at 1715000500] = Inr (runs, [(''report_2024-05-06.json'', 1715000500)]) \<and>
      length (filter (\<lambda>r. config_filename r = ''report_2024-05-06.json'') runs) = 0) \<and>
   distinct (map filename [report_at 1715000000, broken_report]) \<and>
   is_summary_file broken_report \<and> changed [] broken_report \<and> json_load broken_report = None \<and>
   generate_pdf_reports_sensor str_seconds None [report_at 1715000000, broken_report] =
     Inl JSONDecodeError"
proof -
  have d: "distinct (map filename [report_at 1715000500])"
    by simp
  have s: "is_summary_file (report_at 1715000500)"
    by code_simp
  have o: "observed [report_at 1715000500] = [(''report_2024-05-06.json'', 1715000500)]"
    by (simp add: observed_def s) (simp add: report_at_def)
  have f: "filename (report_at 1715000500) = ''report_2024-05-06.json''"
    by (simp add: report_at_def)
  have c1: "changed [(''report_2024-05-06.json'', 1715000000)] (report_at 1715000500)"
    by (simp add: changed_def report_at_def)
  have c2: "\<not> changed [(''report_2024-05-06.json'', 1715000500)] (report_at 1715000500)"
    by (simp add: changed_def report_at_def)
  have j: "json_load (report_at 1715000500) \<noteq> None"
    by (simp add: report_at_def)
  have a: "\<exists>runs.
      generate_pdf_reports_sensor str_seconds (Some [(''report_2024-05-06.json'', 1715000000)])
        [report_at 1715000500] = Inr (runs, [(''report_2024-05-06.json'', 1715000500)]) \<and>
      length (filter (\<lambda>r. config_filename r = ''report_2024-05-06.json'') runs) = 1"
    using sensor_evaluation_spec [OF d, of "Some [(''report_2024-05-06.json'', 1715000000)]" str_seconds]
      s c1 j o f by auto
  have b: "\<exists>runs.
      generate_pdf_reports_sensor str_seconds (Some [(''report_2024-05-06.json'', 1715000500)])
        [report_at 1715000500] = Inr (runs, [(''report_2024-05-06.json'', 1715000500)]) \<and>
      length (filter (\<lambda>r. config_filename r = ''report_2024-05-06.json'') runs) = 0"
    using sensor_evaluation_spec [OF d, of "Some [(''report_2024-05-06.json'', 1715000500)]" str_seconds]
      s c2 j o f by auto
  have d2: "distinct (map filename [report_at 1715000000, broken_report])"
    by (simp add: report_at_def broken_report_def)
  have bs: "is_summary_file broken_report"
    by code_simp
  have bc: "changed [] broken_report"
    by (simp add: changed_def)
  have bj: "json_load broken_report = None"
    by (simp add: broken_report_def)
  have r: "generate_pdf_reports_sensor str_seconds None [report_at 1715000000, broken_report] =
             Inl JSONDecodeError"
    using sensor_evaluation_spec [OF d2, of None str_seconds] bs bc bj
    by (auto split: if_splits)
  from d s c1 c2 j a b d2 bs bc bj r show ?thesis by blast
qed

text \<open>
  Claim C7, as stated, gives every new summary file its work item and returns the
  observed mapping as the cursor. With no cursor and a listing of a new summary file that
  decodes and a new one that does not, the evaluation raises JSONDecodeError: the first
  file triggers nothing and there is no cursor.
\<close>

theorem sensor_undecodable_file_counterexample:
  "is_summary_file (report_at 1715000000) \<and>
   changed [] (report_at 1715000000) \<and>
   generate_pdf_reports_sensor str_seconds None [report_at 1715000000, broken_report] =
     Inl JSONDecodeError"
  by code_simp

lemma key_eq:
  assumes "make_run_key str f1 m1 = make_run_key str f2 m2"
    and "m1 \<in> M" and "m2 \<in> M"
    and "inj_on str M" and "\<forall>m \<in> M. CHR ''_'' \<notin> set (str m)"
  shows "f1 = f2 \<and> m1 = m2"
proof -
  from make_run_key_inj [OF assms(1)] assms(2,3,5) have "f1 = f2" "str m1 = str m2"
    by blast+
  moreover from this(2) assms(2,3,4) have "m1 = m2" by (meson inj_onD)
  ultimately show ?thesis by simp
qed

lemma sensor_run_keys:
  assumes "generate_pdf_reports_sensor str cursor l = Inr (runs, c)"
  shows "map run_key runs =
         map (\<lambda>e. make_run_key str (filename e) (getmtime e))
           (filter (\<lambda>e. is_summary_file e \<and>
                         changed (case cursor of None \<Rightarrow> [] | Some c \<Rightarrow> c) e) l)"
proof -
  from sensor_loop_Inr [of str _ l "[]" "[]" runs c] assms have
    "runs = map (request_for str)
              (filter (\<lambda>e. is_summary_file e \<and>
                            changed (case cursor of None \<Rightarrow> [] | Some c \<Rightarrow> c) e) l)"
    by (simp add: generate_pdf_reports_sensor_def)
  then show ?thesis by (simp add: request_for_def comp_def)
qed

lemma sensor_evaluations_Cons:
  "sensor_evaluations str cursor (l # ls) =
     (case generate_pdf_reports_sensor str cursor l of
        Inl e \<Rightarrow> [] # sensor_evaluations str cursor ls
      | Inr rc \<Rightarrow> fst rc # sensor_evaluations str (Some (snd rc)) ls)"
  by (simp split: sum.splits prod.splits)

text \<open>Every requested run key is the key of a pair that some listing observes.\<close>

lemma emitted_observed:
  "k \<in> set (concat (map (map run_key) (sensor_evaluations str cursor ls))) \<Longrightarrow>
   \<exists>l \<in> set ls. \<exists>p \<in> set (observed l). k = make_run_key str (fst p) (snd p)"
proof (induction ls arbitrary: cursor)
  case Nil
  then show ?case by simp
next
  case (Cons l ls)
  show ?case
  proof (cases "generate_pdf_reports_sensor str cursor l")
    case (Inl e)
    with Cons.prems have "k \<in> set (concat (map (map run_key) (sensor_evaluations str cursor ls)))"
      by (simp add: sensor_evaluations_Cons del: sensor_evaluations.simps)
    from Cons.IH [OF this] show ?thesis by auto
  next
    case (Inr rc)
    obtain runs c where rc: "rc = (runs, c)" by (cases rc) auto
    from Cons.prems Inr rc consider "k \<in> set (map run_key runs)"
      | "k \<in> set (concat (map (map run_key) (sensor_evaluations str (Some c) ls)))"
      by (auto simp add: sensor_evaluations_Cons simp del: sensor_evaluations.simps)
    then show ?thesis
    proof cases
      case 1
      with sensor_run_keys [OF Inr [unfolded rc]] obtain e where
        "e \<in> set l" "is_summary_file e" "k = make_run_key str (filename e) (getmtime e)"
        by auto
      then have "(filename e, getmtime e) \<in> set (observed l)"
        by (auto simp: observed_def)
      with \<open>k = make_run_key str (filename e) (getmtime e)\<close> show ?thesis
        by (intro bexI [of _ l] bexI [of _ "(filename e, getmtime e)"]) simp_all
    next
      case 2
      from Cons.IH [OF this] show ?thesis by auto
    qed
  qed
qed

lemma observed_mtime: "p \<in> set (observed l) \<Longrightarrow> snd p \<in> getmtime ` set l"
  by (auto simp: observed_def)

text \<open>
  The key of a pair that the cursor records is not requested while the pair stays, nor
  after it has gone for good.
\<close>

lemma recorded_pair_not_emitted:
  assumes "inj_on str M" and "\<forall>m \<in> M. CHR ''_'' \<notin> set (str m)" and "m \<in> M"
    and "\<forall>l \<in> set ls. getmtime ` set l \<subseteq> M"
    and "\<forall>l \<in> set ls. distinct (map filename l)"
    and "map_of c f = Some m"
    and "stays_then_gone (f, m) ls"
  shows "make_run_key str f m \<notin>
         set (concat (map (map run_key) (sensor_evaluations str (Some c) ls)))"
  using assms(4-7)
proof (induction ls arbitrary: c)
  case Nil
  then show ?case by simp
next
  case (Cons l ls)
  show ?case
  proof (cases "(f, m) \<in> set (observed l)")
    case False
    with Cons.prems(4) have g: "\<forall>l' \<in> set (l # ls). (f, m) \<notin> set (observed l')"
      by (simp add: gone_def list_all_iff)
    show ?thesis
    proof
      assume "make_run_key str f m \<in>
              set (concat (map (map run_key) (sensor_evaluations str (Some c) (l # ls))))"
      from emitted_observed [OF this] obtain l' p where
        l': "l' \<in> set (l # ls)" and p: "p \<in> set (observed l')"
        and k: "make_run_key str f m = make_run_key str (fst p) (snd p)"
        by blast
      from observed_mtime [OF p] l' Cons.prems(1) have "snd p \<in> M" by blast
      from key_eq [OF k assms(3) this assms(1,2)] have "p = (f, m)" by (cases p) simp
      with p g l' show False by blast
    qed
  next
    case True
    with Cons.prems(4) have stay: "stays_then_gone (f, m) ls" by simp
    from Cons.prems(1,2) have M: "\<forall>l \<in> set ls. getmtime ` set l \<subseteq> M"
      and D: "\<forall>l \<in> set ls. distinct (map filename l)" and dl: "distinct (map filename l)"
      and Ml: "getmtime ` set l \<subseteq> M"
      by simp_all
    show ?thesis
    proof (cases "generate_pdf_reports_sensor str (Some c) l")
      case (Inl e)
      with Cons.IH [OF M D Cons.prems(3) stay] show ?thesis
        by (simp add: sensor_evaluations_Cons del: sensor_evaluations.simps)
    next
      case (Inr rc)
      obtain runs c' where rc: "rc = (runs, c')" by (cases rc) auto
      note run = Inr [unfolded rc]
      from sensor_Inr [OF run dl] have c': "c' = observed l" by simp
      have "distinct (map fst (observed l))"
        using dl by (simp add: observed_def comp_def distinct_map_filter)
      with True have rec: "map_of c' f = Some m"
        unfolding c' by (intro map_of_is_SomeI)
      have here: "make_run_key str f m \<notin> set (map run_key runs)"
      proof
        assume "make_run_key str f m \<in> set (map run_key runs)"
        with sensor_run_keys [OF run] obtain e where e: "e \<in> set l" "changed c e"
          and k: "make_run_key str f m = make_run_key str (filename e) (getmtime e)"
          by auto
        from e(1) Ml have "getmtime e \<in> M" by blast
        from key_eq [OF k assms(3) this assms(1,2)] have "filename e = f" "getmtime e = m"
          by simp_all
        with e(2) Cons.prems(3) show False by (simp add: changed_def)
      qed
      from Cons.IH [OF M D rec stay] here Inr rc show ?thesis
        by (simp add: sensor_evaluations_Cons del: sensor_evaluations.simps)
    qed
  qed
qed

lemma keys_of_evaluation_distinct:
  assumes "inj_on str M" and "\<forall>m \<in> M. CHR ''_'' \<notin> set (str m)"
    and "getmtime ` set l \<subseteq> M" and "distinct (map filename l)"
    and "generate_pdf_reports_sensor str cursor l = Inr (runs, c)"
  shows "distinct (map run_key runs)"
proof -
  let ?k = "\<lambda>e. make_run_key str (filename e) (getmtime e)"
  let ?s = "filter (\<lambda>e. is_summary_file e \<and>
                         changed (case cursor of None \<Rightarrow> [] | Some c \<Rightarrow> c) e) l"
  have f: "distinct (map filename ?s)" using assms(4) by (rule distinct_map_filter)
  then have d: "distinct ?s" by (simp only: distinct_map)
  have "inj_on ?k (set ?s)"
  proof (rule inj_onI)
    fix a b assume a: "a \<in> set ?s" and b: "b \<in> set ?s" and k: "?k a = ?k b"
    from a b assms(3) have "getmtime a \<in> M" "getmtime b \<in> M" by auto
    from key_eq [OF k this assms(1,2)] have "filename a = filename b" by simp
    with f a b show "a = b" by (meson distinct_map inj_onD)
  qed
  with d have "distinct (map ?k ?s)" by (simp only: distinct_map)
  with sensor_run_keys [OF assms(5)] show ?thesis by simp
qed

text \<open>
  Claim C6, amended. Over every sequence of listings without repeated names in which no
  pair of a file name and a modification time comes back, the run keys requested by all
  the evaluations, with the cursor threaded through them, are pairwise distinct, however
  many consecutive evaluations observe the same pair. \<^verbatim>\<open>str\<close> is assumed to
  separate the observed modification times and to put no underscore into their text, as
  the text of a float does.
\<close>

theorem sensor_keys_distinct:
  assumes inj: "inj_on str (getmtime ` (\<Union>l \<in> set ls. set l))"
    and sep: "\<forall>l \<in> set ls. \<forall>e \<in> set l. CHR ''_'' \<notin> set (str (getmtime e))"
    and dist: "\<forall>l \<in> set ls. distinct (map filename l)"
    and npr: "no_pair_returns ls"
  shows "distinct (concat (map (map run_key) (sensor_evaluations str cursor ls)))"
proof -
  define M where "M = getmtime ` (\<Union>l \<in> set ls. set l)"
  have iM: "inj_on str M" using inj by (simp add: M_def)
  have sM: "\<forall>m \<in> M. CHR ''_'' \<notin> set (str m)" using sep by (auto simp: M_def)
  have sub: "\<forall>l \<in> set ls. getmtime ` set l \<subseteq> M" by (auto simp: M_def)
  from sub dist npr show ?thesis
  proof (induction ls arbitrary: cursor)
    case Nil
    then show ?case by simp
  next
    case (Cons l ls)
    from Cons.prems have M: "\<forall>l \<in> set ls. getmtime ` set l \<subseteq> M"
      and D: "\<forall>l \<in> set ls. distinct (map filename l)" and dl: "distinct (map filename l)"
      and Ml: "getmtime ` set l \<subseteq> M" and N: "no_pair_returns ls"
      and stay: "\<forall>p \<in> set (observed l). stays_then_gone p ls"
      by (simp_all add: list_all_iff)
    show ?case
    proof (cases "generate_pdf_reports_sensor str cursor l")
      case (Inl e)
      with Cons.IH [OF M D N, of cursor] show ?thesis
        by (simp add: sensor_evaluations_Cons del: sensor_evaluations.simps)
    next
      case (Inr rc)
      obtain runs c where rc: "rc = (runs, c)" by (cases rc) auto
      note run = Inr [unfolded rc]
      from sensor_Inr [OF run dl] have c: "c = observed l" by simp
      have d1: "distinct (map run_key runs)"
        by (rule keys_of_evaluation_distinct [OF iM sM Ml dl run])
      have d2: "distinct (concat (map (map run_key) (sensor_evaluations str (Some c) ls)))"
        by (rule Cons.IH [OF M D N])
      have fst_dist: "distinct (map fst (observed l))"
        using dl by (simp add: observed_def comp_def distinct_map_filter)
      have disj: "set (map run_key runs) \<inter>
                  set (concat (map (map run_key) (sensor_evaluations str (Some c) ls))) = {}"
      proof (rule ccontr)
        assume "set (map run_key runs) \<inter>
                set (concat (map (map run_key) (sensor_evaluations str (Some c) ls))) \<noteq> {}"
        then obtain k where k1: "k \<in> set (map run_key runs)"
          and k2: "k \<in> set (concat (map (map run_key) (sensor_evaluations str (Some c) ls)))"
          by auto
        from k1 sensor_run_keys [OF run] obtain e where e: "e \<in> set l" "is_summary_file e"
          and k: "k = make_run_key str (filename e) (getmtime e)"
          by auto
        from e have p: "(filename e, getmtime e) \<in> set (observed l)"
          by (auto simp: observed_def)
        from e(1) Ml have mM: "getmtime e \<in> M" by blast
        from p fst_dist have rec: "map_of c (filename e) = Some (getmtime e)"
          unfolding c by (intro map_of_is_SomeI)
        from stay p have "stays_then_gone (filename e, getmtime e) ls" by blast
        from recorded_pair_not_emitted [OF iM sM mM M D rec this] k k2 show False by simp
      qed
      from d1 d2 disj Inr rc show ?thesis
        by (simp add: sensor_evaluations_Cons del: sensor_evaluations.simps)
    qed
  qed
qed

theorem sensor_keys_distinct_witness:
  "inj_on str_seconds
     (getmtime ` (\<Union>l \<in> set [[report_at 1715000000], [report_at 1715000000],
                               [report_at 1715000500], [report_at 1715000500]]. set l)) \<and>
   CHR ''_'' \<notin> set (str_seconds (getmtime (report_at 1715000000))) \<and>
   CHR ''_'' \<notin> set (str_seconds (getmtime (report_at 1715000500))) \<and>
   no_pair_returns [[report_at 1715000000], [report_at 1715000000],
                    [report_at 1715000500], [report_at 1715000500]] \<and>
   map (map run_key)
     (sensor_evaluations str_seconds None
        [[report_at 1715000000], [report_at 1715000000],
         [report_at 1715000500], [report_at 1715000500]]) =
     [[''generate_pdf_reports_report_2024-05-06.json_1715000000.0''], [],
      [''generate_pdf_reports_report_2024-05-06.json_1715000500.0''], []] \<and>
   distinct (concat (map (map run_key)
     (sensor_evaluations str_seconds None
        [[report_at 1715000000], [report_at 1715000000],
         [report_at 1715000500], [report_at 1715000500]])))"
proof -
  let ?ls = "[[report_at 1715000000], [report_at 1715000000],
              [report_at 1715000500], [report_at 1715000500]]"
  have s1: "str_seconds 1715000000 = ''1715000000.0''" and s2: "str_seconds 1715000500 = ''1715000500.0''"
    by code_simp+
  have m: "getmtime (report_at t) = t" for t
    by (simp add: report_at_def)
  have inj: "inj_on str_seconds (getmtime ` (\<Union>l \<in> set ?ls. set l))"
    by (simp add: m s1 s2)
  have sep: "\<forall>l \<in> set ?ls. \<forall>e \<in> set l. CHR ''_'' \<notin> set (str_seconds (getmtime e))"
    by (simp add: m s1 s2)
  have sep1: "CHR ''_'' \<notin> set (str_seconds (getmtime (report_at 1715000000)))"
    and sep2: "CHR ''_'' \<notin> set (str_seconds (getmtime (report_at 1715000500)))"
    by (simp_all add: m s1 s2)
  have dist: "\<forall>l \<in> set ?ls. distinct (map filename l)"
    by simp
  have npr: "no_pair_returns ?ls"
    by code_simp
  have keys: "map (map run_key) (sensor_evaluations str_seconds None ?ls) =
     [[''generate_pdf_reports_report_2024-05-06.json_1715000000.0''], [],
      [''generate_pdf_reports_report_2024-05-06.json_1715000500.0''], []]"
    by code_simp
  from sensor_keys_distinct [OF inj sep dist npr, of None] inj sep1 sep2 npr keys show ?thesis
    by blast
qed

text \<open>
  Claim C6, as stated, excludes a repeated run key over any sequence of evaluations. Three
  evaluations observe one summary file with the modification times \<open>T1\<close>, \<open>T2\<close>, \<open>T1\<close>
  (the file is rewritten, then restored with its first time): the third evaluation
  requests the run key of the first again, since the cursor then records \<open>T2\<close>.
\<close>

theorem sensor_repeats_key_counterexample:
  "map (map run_key)
     (sensor_evaluations str_seconds None
        [[report_at 1715000000], [report_at 1715000500], [report_at 1715000000]]) =
     [[''generate_pdf_reports_report_2024-05-06.json_1715000000.0''],
      [''generate_pdf_reports_report_2024-05-06.json_1715000500.0''],
      [''generate_pdf_reports_report_2024-05-06.json_1715000000.0'']] \<and>
   \<not> distinct (concat (map (map run_key)
     (sensor_evaluations str_seconds None
        [[report_at 1715000000], [report_at 1715000500], [report_at 1715000000]])))"
  by code_simp

subsection \<open>Summarization\<close>










lemma sensor_requests_listed:
  assumes "generate_pdf_reports_sensor str cursor listing = Inr (runs, c)" and "r \<in> set runs"
  shows "config_filename r \<in> filename ` set listing"
proof -
  from sensor_loop_Inr [of str _ listing "[]" "[]" runs c] assms(1) have
    "runs = map (request_for str)
              (filter (\<lambda>e. is_summary_file e \<and>
                            changed (case cursor of None \<Rightarrow> [] | Some c \<Rightarrow> c) e) listing)"
    by (simp add: generate_pdf_reports_sensor_def)
  with assms(2) show ?thesis by (auto simp: request_for_def)
qed

text \<open>
  Claim C10, amended. When the query for the partition's robot posts returns no row, the
  stage returns with the world unchanged: no request to the language model, no file
  written, and no file removed. If the summaries directory holds no file of the
  partition's name, an evaluation of the sensor on the directory after the run, whatever
  its cursor, requests no run for that name.
\<close>

theorem empty_partition_no_output:
  assumes "daily_window (utcoffset E) key = Inr w"
    and "robot_posts_query w D = Inr []"
  shows "summarize_robot_posts S E key D W = (Inr (), W) \<and>
         (POST_SUMMARIES_TEMPLATE_FILE_PATH S key \<notin> filename ` set (directory W) \<longrightarrow>
          (\<forall>cursor runs c.
             generate_pdf_reports_sensor str cursor
               (directory (snd (summarize_robot_posts S E key D W))) = Inr (runs, c) \<longrightarrow>
             (\<forall>r \<in> set runs. config_filename r \<noteq> POST_SUMMARIES_TEMPLATE_FILE_PATH S key)))"
proof -
  have run: "summarize_robot_posts S E key D W = (Inr (), W)"
    using assms by (simp add: summarize_robot_posts_def)
  have "config_filename r \<noteq> POST_SUMMARIES_TEMPLATE_FILE_PATH S key"
    if "POST_SUMMARIES_TEMPLATE_FILE_PATH S key \<notin> filename ` set (directory W)"
      "generate_pdf_reports_sensor str cursor (directory W) = Inr (runs, c)" "r \<in> set runs"
    for cursor runs c r
    using sensor_requests_listed [OF that(2,3)] that(1) by auto
  with run show ?thesis by simp
qed

theorem empty_partition_no_output_witness:
  "daily_window (utcoffset example_env) ''2024-05-06'' =
     Inr \<lparr>start_date = \<lparr>ordinal = 739012, second_of_day = 0\<rparr>,
          end_date = \<lparr>ordinal = 739013, second_of_day = 0\<rparr>,
          start_timestamp = 1714953600, end_timestamp = 1715040000\<rparr> \<and>
   robot_posts_query
     \<lparr>start_date = \<lparr>ordinal = 739012, second_of_day = 0\<rparr>,
      end_date = \<lparr>ordinal = 739013, second_of_day = 0\<rparr>,
      start_timestamp = 1714953600, end_timestamp = 1715040000\<rparr> compound_db = Inr [] \<and>
   POST_SUMMARIES_TEMPLATE_FILE_PATH example_services ''2024-05-06'' \<notin>
     filename ` set (directory empty_world) \<and>
   summarize_robot_posts example_services example_env ''2024-05-06'' compound_db empty_world =
     (Inr (), empty_world) \<and>
   generate_pdf_reports_sensor str_seconds None
     (directory (snd (summarize_robot_posts example_services example_env ''2024-05-06''
        compound_db empty_world))) = Inr ([], [])"
proof -
  let ?w = "\<lparr>start_date = \<lparr>ordinal = 739012, second_of_day = 0\<rparr>,
          end_date = \<lparr>ordinal = 739013, second_of_day = 0\<rparr>,
          start_timestamp = 1714953600, end_timestamp = 1715040000\<rparr>"
  have h1: "daily_window (utcoffset example_env) ''2024-05-06'' = Inr ?w"
    by code_simp
  have h2: "robot_posts_query ?w compound_db = Inr []"
    by code_simp
  have h3: "POST_SUMMARIES_TEMPLATE_FILE_PATH example_services ''2024-05-06'' \<notin>
              filename ` set (directory empty_world)"
    by (simp add: empty_world_def)
  note t = empty_partition_no_output [OF h1 h2, of example_services empty_world str_seconds]
  from t have run: "summarize_robot_posts example_services example_env ''2024-05-06''
                      compound_db empty_world = (Inr (), empty_world)"
    by simp
  have "generate_pdf_reports_sensor str_seconds None (directory empty_world) = Inr ([], [])"
    by (simp add: empty_world_def generate_pdf_reports_sensor_def)
  with run h1 h2 h3 show ?thesis by simp
qed

text \<open>
  Claim C10, as stated, lets the sensor request no run for a partition whose query returns
  no row. An earlier run has left the summary file of 2024-05-06 in the directory; the
  query for 2024-05-06 now returns no row, the stage returns without touching the file,
  and an evaluation of the sensor with no cursor requests a run for that file.
\<close>

theorem stale_file_counterexample:
  "robot_posts_query
     \<lparr>start_date = \<lparr>ordinal = 739012, second_of_day = 0\<rparr>,
      end_date = \<lparr>ordinal = 739013, second_of_day = 0\<rparr>,
      start_timestamp = 1714953600, end_timestamp = 1715040000\<rparr> compound_db = Inr [] \<and>
   summarize_robot_posts example_services example_env ''2024-05-06'' compound_db stale_world =
     (Inr (), stale_world) \<and>
   generate_pdf_reports_sensor str_seconds None
     (directory (snd (summarize_robot_posts example_services example_env ''2024-05-06''
        compound_db stale_world))) =
     Inr ([\<lparr>run_key = ''generate_pdf_reports_report_2024-05-06.json_1715000000.0'',
            config_filename = ''report_2024-05-06.json'', config_summaries = JArr []\<rparr>],
          [(''report_2024-05-06.json'', 1715000000)]) \<and>
   POST_SUMMARIES_TEMPLATE_FILE_PATH example_services ''2024-05-06'' = ''report_2024-05-06.json''"
  by code_simp

end
